theory Spec2Isabelle
  imports Main "HOL-Library.Word"
begin

chapter \<open>The mapping interpreter (internal/bloblang/mapping/executor.go)\<close>

section \<open>Line and column of a trailing clip\<close>

text \<open>
  A rune is a Go \<^verbatim>\<open>int32\<close> code point. \<^verbatim>\<open>LineAndColOf\<close> counts the offset of the clip
  in runes (\<^verbatim>\<open>len(input)-len(clip)\<close> on rune slices) and the length of each line in
  bytes (\<^verbatim>\<open>len(lines[line])\<close> on the strings that \<^verbatim>\<open>strings.Split(string(input), "\n")\<close>
  returns). \<open>RuneLen\<close> is the number of bytes the conversion \<^verbatim>\<open>string(input)\<close> writes
  for one rune: an invalid code point is written as U+FFFD, three bytes.
\<close>

type_synonym rune = int

definition newline :: rune where
  "newline = 10"

definition RuneLen :: "rune \<Rightarrow> int" where
  "RuneLen r =
     (if r < 0 then 3
      else if r < 128 then 1
      else if r < 2048 then 2
      else if 55296 \<le> r \<and> r \<le> 57343 then 3
      else if r < 65536 then 3
      else if r \<le> 1114111 then 4
      else 3)"

definition len_bytes :: "rune list \<Rightarrow> int" where
  "len_bytes l = sum_list (map RuneLen l)"

text \<open>\<^verbatim>\<open>strings.Split(s, "\n")\<close>: the pieces between newlines; one piece for the empty string.\<close>

fun Split :: "rune list \<Rightarrow> rune list list" where
  "Split [] = [[]]"
| "Split (c # cs) =
     (if c = newline then [] # Split cs
      else (case Split cs of
              [] \<Rightarrow> [[c]]
            | l # ls \<Rightarrow> (c # l) # ls))"

text \<open>
  The loop of \<^verbatim>\<open>LineAndColOf\<close>, on the lines from index \<open>line\<close> on: it stops at the first
  line the remaining offset fits in, or past the last line.
\<close>

fun LineAndColOf_loop :: "rune list list \<Rightarrow> int \<Rightarrow> int \<Rightarrow> int \<times> int" where
  "LineAndColOf_loop [] line char = (line, char)"
| "LineAndColOf_loop (l # ls) line char =
     (if char < len_bytes l + 1 then (line, char)
      else LineAndColOf_loop ls (line + 1) (char - len_bytes l - 1))"

definition LineAndColOf :: "rune list \<Rightarrow> rune list \<Rightarrow> int \<times> int" where
  "LineAndColOf input clip =
     (case LineAndColOf_loop (Split input) 0 (int (length input) - int (length clip)) of
        (line, char) \<Rightarrow> (line + 1, char + 1))"

text \<open>Runes that \<^verbatim>\<open>string(input)\<close> writes as one byte each.\<close>

definition single_byte :: "rune list \<Rightarrow> bool" where
  "single_byte l = list_all (\<lambda>r. 0 \<le> r \<and> r < 128) l"

text \<open>The column that follows \<open>pre\<close>, counted from 0: the runes after its last newline.\<close>

definition col_after :: "rune list \<Rightarrow> nat" where
  "col_after pre = length (takeWhile (\<lambda>c. c \<noteq> newline) (rev pre))"

section \<open>Values, errors and the collaborators of the interpreter\<close>

text \<open>
  A Go \<^verbatim>\<open>interface{}\<close> value of a mapping: the JSON kinds, strings and byte strings, and
  the two sentinels \<^verbatim>\<open>query.Nothing\<close> and \<^verbatim>\<open>query.Delete\<close>. Numbers are kept as
  integers; no function below computes with them.
\<close>

type_synonym bytes = string

datatype val =
    Nothing
  | Delete
  | Null
  | VBool bool
  | VNumber int
  | VString string
  | VBytes bytes
  | VArray "val list"
  | VObject "(string \<times> val) list"

datatype ValueType =
    ValueString | ValueBytes | ValueNumber | ValueBool | ValueArray | ValueObject
  | ValueNull | ValueDelete | ValueNothing | ValueUnknown

text \<open>
  Go errors as values. \<open>External\<close> is an error of a collaborator (the store, the codec, a
  query, an assignment, the JSON parser) that the code only passes on. \<open>Errorf\<close> is
  \<^verbatim>\<open>fmt.Errorf\<close> with its format, its \<^verbatim>\<open>%v\<close> integers and the error it wraps with
  \<^verbatim>\<open>%w\<close>; \<open>New\<close> is \<^verbatim>\<open>errors.New\<close>. \<open>NilPointer\<close> is the panic of a method call
  through a nil pointer.
\<close>

datatype error =
    ErrTypeClosed
  | ErrKeyNotFound
  | ErrMessagePartNotExist
  | ErrNoContext
  | External string
  | New string
  | Errorf string "int list" error
  | TypeError string ValueType "ValueType list"
  | NilPointer

text \<open>\<^verbatim>\<open>errors.Is\<close>: the error or one it wraps is the target.\<close>

fun errors_Is :: "error \<Rightarrow> error \<Rightarrow> bool" where
  "errors_Is (Errorf f a e) t = (Errorf f a e = t \<or> errors_Is e t)"
| "errors_Is e t = (e = t)"

text \<open>
  Modelled from the spec: the type-error constructor \<^verbatim>\<open>query.NewTypeErrorFrom\<close>, whose
  source is in the query package and not in executor.go: "a type-error constructor
  producing an error naming the actual type vs expected type". \<open>ITypeOf\<close> names the type
  of a value.
\<close>

fun ITypeOf :: "val \<Rightarrow> ValueType" where
  "ITypeOf Nothing = ValueNothing"
| "ITypeOf Delete = ValueDelete"
| "ITypeOf Null = ValueNull"
| "ITypeOf (VBool b) = ValueBool"
| "ITypeOf (VNumber n) = ValueNumber"
| "ITypeOf (VString s) = ValueString"
| "ITypeOf (VBytes s) = ValueBytes"
| "ITypeOf (VArray xs) = ValueArray"
| "ITypeOf (VObject kvs) = ValueObject"

definition NewTypeErrorFrom :: "string \<Rightarrow> val \<Rightarrow> ValueType \<Rightarrow> error" where
  "NewTypeErrorFrom from actual expected = TypeError from (ITypeOf actual) [expected]"

text \<open>
  Modelled from the spec: the message-part interface \<^verbatim>\<open>types.Part\<close>, whose
  implementation is in another package: \<^verbatim>\<open>JSON()\<close>, \<^verbatim>\<open>Copy()\<close>, \<^verbatim>\<open>Set(bytes)\<close>,
  \<^verbatim>\<open>SetJSON(value)\<close>, \<^verbatim>\<open>Metadata()\<close>, "with an error kind PartNotExist". A part holds a raw payload or structured content, and its
  metadata. The JSON parser is a parameter \<open>parse\<close> of every function that reads a
  structured view.
\<close>

datatype content = NoData | Raw bytes | Structured val

type_synonym Metadata = "string \<rightharpoonup> string"

record Part =
  content :: content
  metadata :: Metadata

definition Part_JSON :: "(bytes \<Rightarrow> error + val) \<Rightarrow> Part \<Rightarrow> error + val" where
  "Part_JSON parse p =
     (case content p of
        NoData \<Rightarrow> Inl ErrMessagePartNotExist
      | Raw bs \<Rightarrow> parse bs
      | Structured v \<Rightarrow> Inr v)"

definition Part_Copy :: "Part \<Rightarrow> Part" where
  "Part_Copy p = p"

definition Part_Set :: "bytes \<Rightarrow> Part \<Rightarrow> Part" where
  "Part_Set bs p = p\<lparr>content := Raw bs\<rparr>"

definition Part_SetJSON :: "val \<Rightarrow> Part \<Rightarrow> error + Part" where
  "Part_SetJSON v p = Inr (p\<lparr>content := Structured v\<rparr>)"

definition Part_Metadata :: "Part \<Rightarrow> Metadata" where
  "Part_Metadata p = metadata p"

text \<open>
  Modelled from the spec: the \<^verbatim>\<open>Message\<close> interface of executor.go has \<^verbatim>\<open>Get(p)\<close> and
  \<^verbatim>\<open>Len()\<close>; its implementation is in another package. A batch is a list of parts; \<open>Get\<close>
  outside the batch answers a part without data, whose \<open>JSON\<close> is the error PartNotExist.
\<close>

type_synonym Message = "Part list"

definition Message_Len :: "Message \<Rightarrow> int" where
  "Message_Len msg = int (length msg)"

definition Message_Get :: "Message \<Rightarrow> int \<Rightarrow> Part" where
  "Message_Get msg p =
     (let i = (if p < 0 then Message_Len msg + p else p)
      in if i < 0 \<or> Message_Len msg \<le> i then \<lparr>content = NoData, metadata = Map.empty\<rparr>
         else msg ! nat i)"

text \<open>
  A query receives a \<^verbatim>\<open>FunctionContext\<close> and may call the context's value function
  (\<^verbatim>\<open>WithValueFunc(lazyValue)\<close>) any number of times before it returns. It is a tree:
  \<open>Return r\<close> returns, \<open>Demand k\<close> calls the value function and goes on as \<open>k\<close> of the
  pointer it got (\<open>None\<close> is nil). A query reads the variables and does not write them.
  The named maps are handed to the collaborators as they are; their type \<open>'m\<close> is open.
\<close>

datatype 'a demand = Return 'a | Demand "val option \<Rightarrow> 'a demand"

primrec demand_bind :: "'a demand \<Rightarrow> ('a \<Rightarrow> 'b demand) \<Rightarrow> 'b demand" where
  "demand_bind (Return r) f = f r"
| "demand_bind (Demand k) f = Demand (\<lambda>p. demand_bind (k p) f)"

text \<open>Running a tree against a value function \<open>vf\<close> that has a state of its own.\<close>

primrec exec_with :: "('s \<Rightarrow> val option \<times> 's) \<Rightarrow> 'a demand \<Rightarrow> 's \<Rightarrow> 'a \<times> 's" where
  "exec_with vf (Return r) = (\<lambda>s. (r, s))"
| "exec_with vf (Demand k) = (\<lambda>s. case vf s of (p, s') \<Rightarrow> exec_with vf (k p) s')"

record 'm FunctionContext =
  Maps :: 'm
  Vars :: "string \<rightharpoonup> val"
  Index :: int
  MsgBatch :: Message

text \<open>
  \<^verbatim>\<open>AssignmentContext\<close>: \<open>Meta\<close> and \<open>Value\<close> are \<open>None\<close> where the Go field is nil. An
  assignment writes through the context (the variables map, the metadata, the working
  value behind the pointer) and returns an error or nil: it is a function to the context
  after the call and the error.
\<close>

record 'm AssignmentContext =
  Maps :: 'm
  Vars :: "string \<rightharpoonup> val"
  Meta :: "Metadata option"
  Value :: "val option"

type_synonym 'm Function = "'m FunctionContext \<Rightarrow> (error + val) demand"

type_synonym 'm Assignment =
  "val \<Rightarrow> 'm AssignmentContext \<Rightarrow> 'm AssignmentContext \<times> error option"

record 'm Statement =
  input :: "rune list"
  assignment :: "'m Assignment"
  query :: "'m Function"

record 'm Executor =
  annotation :: string
  input :: "rune list"
  maps :: 'm
  statements :: "'m Statement list"

text \<open>
  The line every error message carries: 0 unless both the program's and the statement's
  source slices are non-empty.
\<close>

definition stmt_line :: "'m Executor \<Rightarrow> 'm Statement \<Rightarrow> int" where
  "stmt_line e stmt =
     (if Executor.input e \<noteq> [] \<and> Statement.input stmt \<noteq> []
      then fst (LineAndColOf (Executor.input e) (Statement.input stmt)) else 0)"

section \<open>The lazy structured view\<close>

text \<open>
  The closure \<^verbatim>\<open>lazyValue\<close> of \<^verbatim>\<open>QueryPart\<close> and of \<^verbatim>\<open>mapPart\<close> (the two are the same
  text) with the variables it captures. Two counters record what happens in a run:
  \<open>lazyValue_calls\<close> the calls of the closure, \<open>JSON_calls\<close> its calls of
  \<^verbatim>\<open>Get(index).JSON()\<close> on the batch.
\<close>

record lazy_state =
  valuePtr :: "val option"
  parseErr :: "error option"
  lazyValue_calls :: nat
  JSON_calls :: nat

definition lazy_init :: lazy_state where
  "lazy_init = \<lparr>valuePtr = None, parseErr = None, lazyValue_calls = 0, JSON_calls = 0\<rparr>"

definition lazyValue ::
  "(bytes \<Rightarrow> error + val) \<Rightarrow> Message \<Rightarrow> int \<Rightarrow> lazy_state \<Rightarrow> val option \<times> lazy_state" where
  "lazyValue parse msg index s0 =
     (let s = s0\<lparr>lazyValue_calls := lazyValue_calls s0 + 1\<rparr>
      in if valuePtr s = None \<and> parseErr s = None then
           (case Part_JSON parse (Message_Get msg index) of
              Inr jObj \<Rightarrow>
                (Some jObj, s\<lparr>valuePtr := Some jObj, JSON_calls := JSON_calls s + 1\<rparr>)
            | Inl err \<Rightarrow>
                (None,
                 s\<lparr>parseErr :=
                      Some (if errors_Is err ErrMessagePartNotExist
                            then New ''message is empty''
                            else Errorf ''parse as json: %w'' [] err),
                   JSON_calls := JSON_calls s + 1\<rparr>))
         else (valuePtr s, s))"

text \<open>The closure has parsed: it holds a value or an error.\<close>

definition settled :: "lazy_state \<Rightarrow> bool" where
  "settled s = (valuePtr s \<noteq> None \<or> parseErr s \<noteq> None)"

text \<open>The error of a failed query, as both loops rewrite it when the lazy parse failed.\<close>

definition no_context_error :: "string \<Rightarrow> lazy_state \<Rightarrow> error \<Rightarrow> error" where
  "no_context_error fmt lz err =
     (case parseErr lz of
        Some pe \<Rightarrow> if errors_Is err ErrNoContext then Errorf fmt [] pe else err
      | None \<Rightarrow> err)"

section \<open>QueryPart\<close>

record QueryPart_locals =
  newValue :: val
  vars :: "string \<rightharpoonup> val"
  lazy :: lazy_state

text \<open>
  One turn of the loop of \<^verbatim>\<open>QueryPart\<close>: the locals after it, and the error it returns
  with, if it returns.
\<close>

definition QueryPart_stmt ::
  "(bytes \<Rightarrow> error + val) \<Rightarrow> 'm Executor \<Rightarrow> int \<Rightarrow> Message \<Rightarrow> 'm Statement \<Rightarrow>
   QueryPart_locals \<Rightarrow> QueryPart_locals \<times> error option" where
  "QueryPart_stmt parse e index msg stmt st =
     (case exec_with (lazyValue parse msg index)
             (query stmt \<lparr>FunctionContext.Maps = maps e, FunctionContext.Vars = vars st,
                          Index = index, MsgBatch = msg\<rparr>) (lazy st) of
        (Inl err, lz) \<Rightarrow>
          (st\<lparr>lazy := lz\<rparr>,
           Some (Errorf ''failed assignment (line %v): %w'' [stmt_line e stmt]
                   (no_context_error
                      ''unable to reference message as structured (with `this`): %w'' lz err)))
      | (Inr res, lz) \<Rightarrow>
          if res = Nothing then (st\<lparr>lazy := lz\<rparr>, None)
          else (case assignment stmt res
                       \<lparr>Maps = maps e, Vars = vars st, Meta = None,
                        Value = Some (newValue st)\<rparr> of
                  (actx, Some err) \<Rightarrow>
                    (st\<lparr>lazy := lz\<rparr>,
                     Some (Errorf ''failed to assign result (line %v): %w''
                             [stmt_line e stmt] err))
                | (actx, None) \<Rightarrow>
                    (\<lparr>newValue = (case Value actx of Some v \<Rightarrow> v | None \<Rightarrow> newValue st),
                      vars = Vars actx, lazy = lz\<rparr>, None)))"

fun QueryPart_loop ::
  "(bytes \<Rightarrow> error + val) \<Rightarrow> 'm Executor \<Rightarrow> int \<Rightarrow> Message \<Rightarrow> 'm Statement list \<Rightarrow>
   QueryPart_locals \<Rightarrow> QueryPart_locals \<times> error option" where
  "QueryPart_loop parse e index msg [] st = (st, None)"
| "QueryPart_loop parse e index msg (stmt # rest) st =
     (case QueryPart_stmt parse e index msg stmt st of
        (st', Some err) \<Rightarrow> (st', Some err)
      | (st', None) \<Rightarrow> QueryPart_loop parse e index msg rest st')"

definition QueryPart_run ::
  "(bytes \<Rightarrow> error + val) \<Rightarrow> 'm Executor \<Rightarrow> int \<Rightarrow> Message \<Rightarrow>
   QueryPart_locals \<times> error option" where
  "QueryPart_run parse e index msg =
     QueryPart_loop parse e index msg (statements e)
       \<lparr>newValue = Nothing, vars = Map.empty, lazy = lazy_init\<rparr>"

definition QueryPart ::
  "(bytes \<Rightarrow> error + val) \<Rightarrow> 'm Executor \<Rightarrow> int \<Rightarrow> Message \<Rightarrow> error + bool" where
  "QueryPart parse e index msg =
     (case QueryPart_run parse e index msg of
        (st, Some err) \<Rightarrow> Inl err
      | (st, None) \<Rightarrow>
          (case newValue st of
             VBool b \<Rightarrow> Inr b
           | v \<Rightarrow> Inl (NewTypeErrorFrom ''mapping'' v ValueBool)))"

section \<open>MapPart, MapOnto and mapPart\<close>

record mapPart_locals =
  newObj :: val
  newMeta :: Metadata
  vars :: "string \<rightharpoonup> val"
  lazy :: lazy_state

text \<open>
  What \<^verbatim>\<open>mapPart\<close> starts from: the part it writes to and the first working value.
  Without a part to append to it copies the part of the batch; with one, it reads that
  part's JSON and drops the error if there is one. Parts are values here: \<open>appendTo\<close> is
  not a part of \<open>reference\<close> that the loop would see change.
\<close>

definition mapPart_seed ::
  "(bytes \<Rightarrow> error + val) \<Rightarrow> Part option \<Rightarrow> int \<Rightarrow> Message \<Rightarrow> Part \<times> val" where
  "mapPart_seed parse appendTo index reference =
     (case appendTo of
        None \<Rightarrow> (Part_Copy (Message_Get reference index), Nothing)
      | Some p \<Rightarrow>
          (p, case Part_JSON parse p of Inr appendObj \<Rightarrow> appendObj | Inl err \<Rightarrow> Nothing))"

definition mapPart_stmt ::
  "(bytes \<Rightarrow> error + val) \<Rightarrow> 'm Executor \<Rightarrow> int \<Rightarrow> Message \<Rightarrow> 'm Statement \<Rightarrow>
   mapPart_locals \<Rightarrow> mapPart_locals \<times> error option" where
  "mapPart_stmt parse e index reference stmt st =
     (case exec_with (lazyValue parse reference index)
             (query stmt \<lparr>FunctionContext.Maps = maps e, FunctionContext.Vars = vars st,
                          Index = index, MsgBatch = reference\<rparr>) (lazy st) of
        (Inl err, lz) \<Rightarrow>
          (st\<lparr>lazy := lz\<rparr>,
           Some (Errorf ''failed assignment (line %v): %w'' [stmt_line e stmt]
                   (no_context_error
                      ''unable to reference message as structured (with 'this'): %w'' lz err)))
      | (Inr res, lz) \<Rightarrow>
          if res = Nothing then (st\<lparr>lazy := lz\<rparr>, None)
          else (case assignment stmt res
                       \<lparr>Maps = maps e, Vars = vars st, Meta = Some (newMeta st),
                        Value = Some (newObj st)\<rparr> of
                  (actx, Some err) \<Rightarrow>
                    (st\<lparr>lazy := lz\<rparr>,
                     Some (Errorf ''failed to assign result (line %v): %w''
                             [stmt_line e stmt] err))
                | (actx, None) \<Rightarrow>
                    (\<lparr>newObj = (case Value actx of Some v \<Rightarrow> v | None \<Rightarrow> newObj st),
                      newMeta = (case Meta actx of Some m \<Rightarrow> m | None \<Rightarrow> newMeta st),
                      vars = Vars actx, lazy = lz\<rparr>, None)))"

fun mapPart_loop ::
  "(bytes \<Rightarrow> error + val) \<Rightarrow> 'm Executor \<Rightarrow> int \<Rightarrow> Message \<Rightarrow> 'm Statement list \<Rightarrow>
   mapPart_locals \<Rightarrow> mapPart_locals \<times> error option" where
  "mapPart_loop parse e index reference [] st = (st, None)"
| "mapPart_loop parse e index reference (stmt # rest) st =
     (case mapPart_stmt parse e index reference stmt st of
        (st', Some err) \<Rightarrow> (st', Some err)
      | (st', None) \<Rightarrow> mapPart_loop parse e index reference rest st')"

text \<open>The switch on the final working value; \<open>Inr None\<close> is the nil part.\<close>

definition mapPart_result :: "Part \<Rightarrow> val \<Rightarrow> error + Part option" where
  "mapPart_result newPart obj =
     (case obj of
        Delete \<Rightarrow> Inr None
      | Nothing \<Rightarrow> Inr (Some newPart)
      | VString t \<Rightarrow> Inr (Some (Part_Set t newPart))
      | VBytes t \<Rightarrow> Inr (Some (Part_Set t newPart))
      | v \<Rightarrow>
          (case Part_SetJSON v newPart of
             Inl err \<Rightarrow> Inl (Errorf ''failed to set result of mapping: %w'' [] err)
           | Inr p \<Rightarrow> Inr (Some p)))"

text \<open>
  The seeding and the loop: the part written to, the locals at the end of the loop and
  the error the loop returned with, if it did.
\<close>

definition mapPart_run ::
  "(bytes \<Rightarrow> error + val) \<Rightarrow> 'm Executor \<Rightarrow> Part option \<Rightarrow> int \<Rightarrow> Message \<Rightarrow>
   Part \<times> mapPart_locals \<times> error option" where
  "mapPart_run parse e appendTo index reference =
     (case mapPart_seed parse appendTo index reference of
        (newPart, obj) \<Rightarrow>
          (newPart,
           mapPart_loop parse e index reference (statements e)
             \<lparr>newObj = obj, newMeta = Part_Metadata newPart, vars = Map.empty,
              lazy = lazy_init\<rparr>))"

text \<open>
  \<open>newMeta\<close> is the part's own metadata object, which the assignments wrote to: the part
  that is returned carries it.
\<close>

definition mapPart ::
  "(bytes \<Rightarrow> error + val) \<Rightarrow> 'm Executor \<Rightarrow> Part option \<Rightarrow> int \<Rightarrow> Message \<Rightarrow>
   error + Part option" where
  "mapPart parse e appendTo index reference =
     (case mapPart_run parse e appendTo index reference of
        (newPart, st, Some err) \<Rightarrow> Inl err
      | (newPart, st, None) \<Rightarrow>
          mapPart_result (newPart\<lparr>metadata := newMeta st\<rparr>) (newObj st))"

definition MapPart ::
  "(bytes \<Rightarrow> error + val) \<Rightarrow> 'm Executor \<Rightarrow> int \<Rightarrow> Message \<Rightarrow> error + Part option" where
  "MapPart parse e index msg = mapPart parse e None index msg"

definition MapOnto ::
  "(bytes \<Rightarrow> error + val) \<Rightarrow> 'm Executor \<Rightarrow> Part option \<Rightarrow> int \<Rightarrow> Message \<Rightarrow>
   error + Part option" where
  "MapOnto parse e part index msg = mapPart parse e part index msg"

section \<open>Exec and ExecOnto\<close>

text \<open>
  \<^verbatim>\<open>Exec\<close> and \<^verbatim>\<open>ExecOnto\<close> run the statements in the caller's context, with the
  caller's value function: they are trees themselves. The assignments of \<^verbatim>\<open>Exec\<close> write
  to the caller's variables map \<^verbatim>\<open>ctx.Vars\<close>, which later queries read; the map as it
  is at the end is part of the result.
\<close>

definition Exec_stmt ::
  "'m Executor \<Rightarrow> 'm FunctionContext \<Rightarrow> 'm Statement \<Rightarrow> val \<times> (string \<rightharpoonup> val) \<Rightarrow>
   ((val \<times> (string \<rightharpoonup> val)) \<times> error option) demand" where
  "Exec_stmt e ctx stmt st =
     (case st of (obj, vs) \<Rightarrow>
        demand_bind (query stmt (ctx\<lparr>FunctionContext.Vars := vs\<rparr>))
          (\<lambda>r. Return
             (case r of
                Inl err \<Rightarrow>
                  (st, Some (Errorf ''failed assignment (line %v): %w'' [stmt_line e stmt] err))
              | Inr res \<Rightarrow>
                  if res = Nothing then (st, None)
                  else (case assignment stmt res
                               \<lparr>Maps = maps e, Vars = vs, Meta = None, Value = Some obj\<rparr> of
                          (actx, Some err) \<Rightarrow>
                            ((obj, Vars actx),
                             Some (Errorf ''failed to assign result (line %v): %w''
                                     [stmt_line e stmt] err))
                        | (actx, None) \<Rightarrow>
                            ((case Value actx of Some v \<Rightarrow> v | None \<Rightarrow> obj, Vars actx),
                             None)))))"

primrec Exec_loop ::
  "'m Executor \<Rightarrow> 'm FunctionContext \<Rightarrow> 'm Statement list \<Rightarrow> val \<times> (string \<rightharpoonup> val) \<Rightarrow>
   ((val \<times> (string \<rightharpoonup> val)) \<times> error option) demand" where
  "Exec_loop e ctx [] = (\<lambda>st. Return (st, None))"
| "Exec_loop e ctx (stmt # rest) =
     (\<lambda>st. demand_bind (Exec_stmt e ctx stmt st)
        (\<lambda>r. case r of
                (st', Some err) \<Rightarrow> Return (st', Some err)
              | (st', None) \<Rightarrow> Exec_loop e ctx rest st'))"

definition Exec ::
  "'m Executor \<Rightarrow> 'm FunctionContext \<Rightarrow> ((error + val) \<times> (string \<rightharpoonup> val)) demand" where
  "Exec e ctx =
     demand_bind (Exec_loop e ctx (statements e) (Nothing, FunctionContext.Vars ctx))
       (\<lambda>r. Return
          (case r of
             ((obj, vs), Some err) \<Rightarrow> (Inl err, vs)
           | ((obj, vs), None) \<Rightarrow> (Inr obj, vs)))"

text \<open>
  \<^verbatim>\<open>ExecOnto\<close> applies the results to the caller's assignment context \<open>onto\<close>. The
  queries read \<^verbatim>\<open>ctx.Vars\<close>; \<open>same_vars\<close> says that \<^verbatim>\<open>onto.Vars\<close> is that very map, so
  that the queries see what the assignments wrote.
\<close>

definition ExecOnto_stmt ::
  "'m Executor \<Rightarrow> bool \<Rightarrow> 'm Statement \<Rightarrow> 'm FunctionContext \<times> 'm AssignmentContext \<Rightarrow>
   (('m FunctionContext \<times> 'm AssignmentContext) \<times> error option) demand" where
  "ExecOnto_stmt e same_vars stmt st =
     (case st of (ctx, onto) \<Rightarrow>
        demand_bind (query stmt ctx)
          (\<lambda>r. Return
             (case r of
                Inl err \<Rightarrow>
                  (st, Some (Errorf ''failed assignment (line %v): %w'' [stmt_line e stmt] err))
              | Inr res \<Rightarrow>
                  if res = Nothing then (st, None)
                  else (case assignment stmt res onto of
                          (onto', err) \<Rightarrow>
                            ((if same_vars then ctx\<lparr>FunctionContext.Vars := Vars onto'\<rparr> else ctx,
                              onto'),
                             (case err of
                                Some er \<Rightarrow>
                                  Some (Errorf ''failed to assign result (line %v): %w''
                                          [stmt_line e stmt] er)
                              | None \<Rightarrow> None))))))"

primrec ExecOnto_loop ::
  "'m Executor \<Rightarrow> bool \<Rightarrow> 'm Statement list \<Rightarrow> 'm FunctionContext \<times> 'm AssignmentContext \<Rightarrow>
   (('m FunctionContext \<times> 'm AssignmentContext) \<times> error option) demand" where
  "ExecOnto_loop e same_vars [] = (\<lambda>st. Return (st, None))"
| "ExecOnto_loop e same_vars (stmt # rest) =
     (\<lambda>st. demand_bind (ExecOnto_stmt e same_vars stmt st)
        (\<lambda>r. case r of
                (st', Some err) \<Rightarrow> Return (st', Some err)
              | (st', None) \<Rightarrow> ExecOnto_loop e same_vars rest st'))"

definition ExecOnto ::
  "'m Executor \<Rightarrow> bool \<Rightarrow> 'm FunctionContext \<Rightarrow> 'm AssignmentContext \<Rightarrow>
   ('m AssignmentContext \<times> error option) demand" where
  "ExecOnto e same_vars ctx onto =
     demand_bind (ExecOnto_loop e same_vars (statements e) (ctx, onto))
       (\<lambda>r. Return (case r of ((ctx', onto'), err) \<Rightarrow> (onto', err)))"

chapter \<open>The durable buffer (lib/buffer/parallel/badger.go)\<close>

section \<open>The key/value store\<close>

type_synonym key = bytes

definition benthosSeqKey :: key where
  "benthosSeqKey = ''benthos_msg_seq''"

text \<open>\<^verbatim>\<open>bytes.Compare(a, b) < 0\<close>, the order the store iterates its keys in.\<close>

fun bytes_less :: "bytes \<Rightarrow> bytes \<Rightarrow> bool" where
  "bytes_less [] [] = False"
| "bytes_less [] (y # ys) = True"
| "bytes_less (x # xs) [] = False"
| "bytes_less (x # xs) (y # ys) =
     ((of_char x :: nat) < of_char y \<or> (x = y \<and> bytes_less xs ys))"

text \<open>
  Modelled from the spec: the embedded store \<^verbatim>\<open>badger.DB\<close>, an external library, "an
  embedded ordered key/value store" with get, set and delete in transactions, an iterator
  in ascending key order, a reported size and close. The records are kept in ascending
  key order. What the store answers beyond that is not the buffer's to decide: the
  errors of its calls and the sizes it reports are a \<open>store_env\<close> given to each
  operation, \<open>None\<close> for a call that succeeds.
\<close>

record kvdb =
  items :: "(key \<times> bytes) list"

record store_env =
  open_err :: "error option"
  sequence_err :: "error option"
  update_err :: "error option"
  view_err :: "error option"
  close_err :: "error option"
  sizes :: "int \<times> int"

definition no_faults :: store_env where
  "no_faults =
     \<lparr>open_err = None, sequence_err = None, update_err = None, view_err = None,
      close_err = None, sizes = (0, 0)\<rparr>"

fun kv_insert :: "key \<Rightarrow> bytes \<Rightarrow> (key \<times> bytes) list \<Rightarrow> (key \<times> bytes) list" where
  "kv_insert k v [] = [(k, v)]"
| "kv_insert k v ((k', v') # xs) =
     (if k = k' then (k, v) # xs
      else if bytes_less k k' then (k, v) # (k', v') # xs
      else (k', v') # kv_insert k v xs)"

definition db_Set :: "error option \<Rightarrow> key \<Rightarrow> bytes \<Rightarrow> kvdb \<Rightarrow> error + kvdb" where
  "db_Set fault k v d =
     (case fault of
        Some err \<Rightarrow> Inl err
      | None \<Rightarrow> Inr (d\<lparr>items := kv_insert k v (items d)\<rparr>))"

definition db_Delete :: "error option \<Rightarrow> key \<Rightarrow> kvdb \<Rightarrow> error + kvdb" where
  "db_Delete fault k d =
     (case fault of
        Some err \<Rightarrow> Inl err
      | None \<Rightarrow> Inr (d\<lparr>items := filter (\<lambda>kv. fst kv \<noteq> k) (items d)\<rparr>))"

definition db_Get :: "error option \<Rightarrow> key \<Rightarrow> kvdb \<Rightarrow> error + bytes" where
  "db_Get fault k d =
     (case fault of
        Some err \<Rightarrow> Inl err
      | None \<Rightarrow>
          (case map_of (items d) k of
             None \<Rightarrow> Inl ErrKeyNotFound
           | Some v \<Rightarrow> Inr v))"

definition db_Keys :: "kvdb \<Rightarrow> key list" where
  "db_Keys d = map fst (items d)"

text \<open>
  Modelled from the spec: the sequence allocator \<^verbatim>\<open>badger.Sequence\<close>, of the same library,
  "a persistent monotonic counter" whose \<open>next()\<close> answers a \<^verbatim>\<open>uint64\<close>. The batches it
  reserves in the store are the store's business; a reservation that fails is the
  \<open>sequence_err\<close> of the environment.
\<close>

record Sequence =
  next_num :: "64 word"

definition Sequence_Next :: "error option \<Rightarrow> Sequence \<Rightarrow> error + (64 word \<times> Sequence)" where
  "Sequence_Next fault s =
     (case fault of
        Some err \<Rightarrow> Inl err
      | None \<Rightarrow> Inr (next_num s, s\<lparr>next_num := next_num s + 1\<rparr>))"

section \<open>Keys\<close>

text \<open>\<^verbatim>\<open>fmt.Sprintf("%020d", keyNum)\<close>: the decimal digits, padded with zeros to 20.\<close>

definition digit :: "nat \<Rightarrow> char" where
  "digit d = ''0123456789'' ! d"

fun decimal :: "nat \<Rightarrow> string" where
  "decimal n = (if n < 10 then [digit n] else decimal (n div 10) @ [digit (n mod 10)])"

declare decimal.simps [simp del]

definition Sprintf_020d :: "64 word \<Rightarrow> string" where
  "Sprintf_020d keyNum =
     (let d = decimal (unat keyNum) in replicate (20 - length d) (CHR ''0'') @ d)"

section \<open>The buffer\<close>

text \<open>
  The fields of \<^verbatim>\<open>Badger\<close> that the mutex guards. \<open>db\<close> and \<open>seq\<close> are \<open>None\<close> where the
  pointer is nil. \<open>pendingCtr\<close> is an \<^verbatim>\<open>int64\<close> moved by one at a time, once per key held in
  memory; it is an integer here.
\<close>

record Badger =
  messageKeys :: "key list"
  pendingCtr :: int
  db :: "kvdb option"
  seq :: "Sequence option"

text \<open>
  \<^verbatim>\<open>NewBadger\<close> on the store \<open>d\<close> found in the directory, with the sequence \<open>s\<close> the store
  hands out: it scans the keys in order and skips the allocator's own.
\<close>

definition NewBadger :: "store_env \<Rightarrow> kvdb \<Rightarrow> Sequence \<Rightarrow> error + Badger" where
  "NewBadger env d s =
     (case open_err env of
        Some err \<Rightarrow> Inl err
      | None \<Rightarrow>
          (case sequence_err env of
             Some err \<Rightarrow> Inl err
           | None \<Rightarrow>
               (case view_err env of
                  Some err \<Rightarrow> Inl err
                | None \<Rightarrow>
                    (let keys = filter (\<lambda>k. k \<noteq> benthosSeqKey) (db_Keys d)
                     in Inr \<lparr>messageKeys = keys, pendingCtr = int (length keys),
                             db = Some d, seq = Some s\<rparr>))))"

text \<open>
  What a call that can wait on the condition variable does when it is run alone:
  \<open>Waits\<close> when its wait predicate holds, so that only another caller can release it.
\<close>

datatype 'a outcome = Waits | Fails error | Returns 'a

text \<open>
  \<^verbatim>\<open>PushMessage\<close>, one critical section. \<open>Bytes\<close> is the codec's \<^verbatim>\<open>msg.Bytes()\<close>.
\<close>

definition PushMessage ::
  "('msg \<Rightarrow> bytes) \<Rightarrow> store_env \<Rightarrow> 'msg \<Rightarrow> Badger \<Rightarrow> Badger \<times> (error + int)" where
  "PushMessage Bytes env msg b =
     (case db b of
        None \<Rightarrow> (b, Inl ErrTypeClosed)
      | Some d \<Rightarrow>
          (case seq b of
             None \<Rightarrow> (b, Inl NilPointer)
           | Some s \<Rightarrow>
               (case Sequence_Next (sequence_err env) s of
                  Inl err \<Rightarrow> (b, Inl err)
                | Inr (keyNum, s') \<Rightarrow>
                    (let key = Sprintf_020d keyNum
                     in case db_Set (update_err env) key (Bytes msg) d of
                          Inl err \<Rightarrow> (b\<lparr>seq := Some s'\<rparr>, Inl err)
                        | Inr d' \<Rightarrow>
                            (b\<lparr>messageKeys := messageKeys b @ [key],
                               pendingCtr := pendingCtr b + 1,
                               db := Some d', seq := Some s'\<rparr>,
                             Inr (snd (sizes env)))))))"

text \<open>
  \<^verbatim>\<open>NextMessage\<close> in its parts. The first critical section waits, or fails on a closed
  buffer, or removes the head key.
\<close>

definition NextMessage_lock :: "Badger \<Rightarrow> Badger \<times> key outcome" where
  "NextMessage_lock b =
     (case db b of
        None \<Rightarrow> (b, Fails ErrTypeClosed)
      | Some d \<Rightarrow>
          (case messageKeys b of
             [] \<Rightarrow> (b, Waits)
           | k # rest \<Rightarrow> (b\<lparr>messageKeys := rest\<rparr>, Returns k)))"

text \<open>
  The read outside the critical section, and the critical section that puts the key back
  when the read fails. \<open>FromBytes\<close> is the codec's \<^verbatim>\<open>types.FromBytes\<close>; the deep copy of a
  value is the value. A buffer closed since the key was taken has a nil \<^verbatim>\<open>b.db\<close>, and
  the call through it panics.
\<close>

definition NextMessage_read ::
  "(bytes \<Rightarrow> error + 'msg) \<Rightarrow> store_env \<Rightarrow> key \<Rightarrow> Badger \<Rightarrow> Badger \<times> (error + 'msg)" where
  "NextMessage_read FromBytes env k b =
     (case db b of
        None \<Rightarrow> (b, Inl NilPointer)
      | Some d \<Rightarrow>
          (case db_Get (view_err env) k d of
             Inl err \<Rightarrow> (b\<lparr>messageKeys := k # messageKeys b\<rparr>, Inl err)
           | Inr v \<Rightarrow>
               (case FromBytes v of
                  Inl err \<Rightarrow> (b\<lparr>messageKeys := k # messageKeys b\<rparr>, Inl err)
                | Inr borrowMsg \<Rightarrow> (b, Inr borrowMsg))))"

text \<open>The whole call; the \<^verbatim>\<open>AckFunc\<close> it returns is the key the closure holds.\<close>

definition NextMessage ::
  "(bytes \<Rightarrow> error + 'msg) \<Rightarrow> store_env \<Rightarrow> Badger \<Rightarrow> Badger \<times> ('msg \<times> key) outcome" where
  "NextMessage FromBytes env b =
     (case NextMessage_lock b of
        (b', Waits) \<Rightarrow> (b', Waits)
      | (b', Fails err) \<Rightarrow> (b', Fails err)
      | (b', Returns k) \<Rightarrow>
          (case NextMessage_read FromBytes env k b' of
             (b'', Inl err) \<Rightarrow> (b'', Fails err)
           | (b'', Inr msg) \<Rightarrow> (b'', Returns (msg, k))))"

text \<open>The closure \<^verbatim>\<open>NextMessage\<close> returns, for the key \<open>k\<close> it holds.\<close>

definition AckFunc :: "store_env \<Rightarrow> key \<Rightarrow> bool \<Rightarrow> Badger \<Rightarrow> Badger \<times> int \<times> error option" where
  "AckFunc env k ack b =
     (case db b of
        None \<Rightarrow> (b, 0, Some ErrTypeClosed)
      | Some d \<Rightarrow>
          if ack then
            (case db_Delete (update_err env) k d of
               Inl err \<Rightarrow> (b, snd (sizes env), Some err)
             | Inr d' \<Rightarrow>
                 (b\<lparr>pendingCtr := pendingCtr b - 1, db := Some d'\<rparr>, snd (sizes env), None))
          else (b\<lparr>messageKeys := k # messageKeys b\<rparr>, snd (sizes env), None))"

text \<open>
  \<^verbatim>\<open>cleanUpBadger\<close>, with the calls it makes on the store and on the sequence, in order.
\<close>

datatype store_call = SeqRelease | DbClose

definition cleanUpBadger :: "store_env \<Rightarrow> Badger \<Rightarrow> Badger \<times> store_call list \<times> error option" where
  "cleanUpBadger env b =
     (let b1 = (case seq b of Some s \<Rightarrow> b\<lparr>seq := None\<rparr> | None \<Rightarrow> b)
      in case db b1 of
           Some d \<Rightarrow> (b1\<lparr>db := None\<rparr>, [DbClose], close_err env)
         | None \<Rightarrow> (b1, [], None))"

definition Close :: "store_env \<Rightarrow> Badger \<Rightarrow> Badger \<times> store_call list" where
  "Close env b = (case cleanUpBadger env b of (b', calls, err) \<Rightarrow> (b', calls))"

definition CloseOnceEmpty :: "store_env \<Rightarrow> Badger \<Rightarrow> Badger \<times> store_call list outcome" where
  "CloseOnceEmpty env b =
     (if 0 < pendingCtr b \<and> db b \<noteq> None then (b, Waits)
      else (case cleanUpBadger env b of (b', calls, err) \<Rightarrow> (b', Returns calls)))"

section \<open>Callers of the buffer\<close>

text \<open>
  One caller that pushes a list of messages, and one that takes and acks: \<open>Take\<close> calls
  \<^verbatim>\<open>NextMessage\<close> and keeps the \<^verbatim>\<open>AckFunc\<close> it is given, \<open>AckPositive i\<close> calls the
  \<^verbatim>\<open>AckFunc\<close> of its \<open>i\<close>-th take so far with \<^verbatim>\<open>true\<close>, if there is one. It never acks
  negatively. Its state is the buffer, the keys of the handles it was given and the
  outcomes of its takes.
\<close>

fun pushes :: "('msg \<Rightarrow> bytes) \<Rightarrow> store_env \<Rightarrow> 'msg list \<Rightarrow> Badger \<Rightarrow> Badger" where
  "pushes Bytes env [] b = b"
| "pushes Bytes env (m # ms) b = pushes Bytes env ms (fst (PushMessage Bytes env m b))"

datatype caller_op = Take | AckPositive nat

fun run_ops ::
  "(bytes \<Rightarrow> error + 'msg) \<Rightarrow> store_env \<Rightarrow> caller_op list \<Rightarrow>
   Badger \<times> key list \<times> ('msg \<times> key) outcome list \<Rightarrow>
   Badger \<times> key list \<times> ('msg \<times> key) outcome list" where
  "run_ops FromBytes env [] st = st"
| "run_ops FromBytes env (Take # ops) (b, hs, rs) =
     (case NextMessage FromBytes env b of
        (b', r) \<Rightarrow>
          run_ops FromBytes env ops
            (b', hs @ (case r of Returns (m, k) \<Rightarrow> [k] | _ \<Rightarrow> []), rs @ [r]))"
| "run_ops FromBytes env (AckPositive i # ops) (b, hs, rs) =
     (if i < length hs
      then run_ops FromBytes env ops (fst (AckFunc env (hs ! i) True b), hs, rs)
      else run_ops FromBytes env ops (b, hs, rs))"

text \<open>The keys \<open>n\<close> pushes are given by a sequence that stands at \<open>w\<close>.\<close>

fun issued :: "64 word \<Rightarrow> nat \<Rightarrow> key list" where
  "issued w 0 = []"
| "issued w (Suc n) = Sprintf_020d w # issued (w + 1) n"

text \<open>
  Any number of callers. Each step is one critical section of one call (the read of
  \<^verbatim>\<open>NextMessage\<close> with the section that follows a failed read), so every state is one
  with nobody inside the mutex. Beside the buffer a state holds the keys that calls have
  in hand: \<open>reading\<close>, taken off the list by a \<^verbatim>\<open>NextMessage\<close> that has not read the
  record yet, and \<open>unacked\<close>, held by an \<^verbatim>\<open>AckFunc\<close> that has not yet put its key back
  or deleted its record. An \<^verbatim>\<open>AckFunc\<close> is not called again once it has done either. A
  read through a \<^verbatim>\<open>b.db\<close> that is nil panics and ends the process: it is no step.
\<close>

record system =
  buf :: Badger
  reading :: "key list"
  unacked :: "key list"

inductive step ::
  "('msg \<Rightarrow> bytes) \<Rightarrow> (bytes \<Rightarrow> error + 'msg) \<Rightarrow> system \<Rightarrow> system \<Rightarrow> bool"
  for Bytes :: "'msg \<Rightarrow> bytes" and FromBytes :: "bytes \<Rightarrow> error + 'msg" where
  push: "step Bytes FromBytes s (s\<lparr>buf := fst (PushMessage Bytes env msg (buf s))\<rparr>)"
| take_lock:
    "NextMessage_lock (buf s) = (b', Returns k) \<Longrightarrow>
     step Bytes FromBytes s (s\<lparr>buf := b', reading := k # reading s\<rparr>)"
| take_read:
    "k \<in> set (reading s) \<Longrightarrow> NextMessage_read FromBytes env k (buf s) = (b', Inr msg) \<Longrightarrow>
     step Bytes FromBytes s
       (s\<lparr>buf := b', reading := remove1 k (reading s), unacked := k # unacked s\<rparr>)"
| take_read_failed:
    "k \<in> set (reading s) \<Longrightarrow> NextMessage_read FromBytes env k (buf s) = (b', Inl err) \<Longrightarrow>
     db (buf s) \<noteq> None \<Longrightarrow>
     step Bytes FromBytes s (s\<lparr>buf := b', reading := remove1 k (reading s)\<rparr>)"
| ack:
    "k \<in> set (unacked s) \<Longrightarrow> AckFunc env k positive (buf s) = (b', n, err) \<Longrightarrow>
     step Bytes FromBytes s
       (s\<lparr>buf := b',
          unacked := (if err = None then remove1 k (unacked s) else unacked s)\<rparr>)"
| close: "step Bytes FromBytes s (s\<lparr>buf := fst (Close env (buf s))\<rparr>)"
| close_once_empty:
    "CloseOnceEmpty env (buf s) = (b', Returns calls) \<Longrightarrow>
     step Bytes FromBytes s (s\<lparr>buf := b'\<rparr>)"

section \<open>Invariants and small programs\<close>

text \<open>The counters of a lazy view that has parsed at most once, on its first call.\<close>

definition parsed_once :: "lazy_state \<Rightarrow> bool" where
  "parsed_once s =
     (JSON_calls s = (if lazyValue_calls s = 0 then 0 else 1) \<and>
      settled s = (lazyValue_calls s \<noteq> 0))"

text \<open>
  Programs to run the interpreter on: a parser that knows three literals, the query
  \<^verbatim>\<open>this\<close>, a query that answers a fixed value, the assignment to \<^verbatim>\<open>root\<close>, the assignment to
  a variable, and the program of a list of statements.
\<close>

definition parse_literal :: "bytes \<Rightarrow> error + val" where
  "parse_literal bs =
     (if bs = ''true'' then Inr (VBool True)
      else if bs = ''false'' then Inr (VBool False)
      else if bs = ''null'' then Inr Null
      else Inl (External ''invalid character''))"

definition this_query :: "unit Function" where
  "this_query ctx = Demand (\<lambda>p. Return (case p of Some v \<Rightarrow> Inr v | None \<Rightarrow> Inl ErrNoContext))"

definition literal_query :: "val \<Rightarrow> unit Function" where
  "literal_query v ctx = Return (Inr v)"

definition root_assignment :: "unit Assignment" where
  "root_assignment res actx = (actx\<lparr>Value := Some res\<rparr>, None)"

definition var_assignment :: "string \<Rightarrow> unit Assignment" where
  "var_assignment name res actx = (actx\<lparr>Vars := (Vars actx)(name \<mapsto> res)\<rparr>, None)"

definition var_gets :: "string \<Rightarrow> unit Function \<Rightarrow> unit Statement" where
  "var_gets name q = \<lparr>Statement.input = [], assignment = var_assignment name, query = q\<rparr>"

definition root_gets :: "unit Function \<Rightarrow> unit Statement" where
  "root_gets q = \<lparr>Statement.input = [], assignment = root_assignment, query = q\<rparr>"

definition program :: "unit Statement list \<Rightarrow> unit Executor" where
  "program stmts = \<lparr>annotation = [], Executor.input = [], maps = (), statements = stmts\<rparr>"

definition raw_part :: "bytes \<Rightarrow> Part" where
  "raw_part bs = \<lparr>content = Raw bs, metadata = Map.empty\<rparr>"

text \<open>
  The decimal digits of \<open>n\<close> in exactly \<open>k\<close> places, and the states of one small run of
  the buffer: opened on an empty store, after one push, after the take that follows,
  and closed after that take.
\<close>

fun fixed_decimal :: "nat \<Rightarrow> nat \<Rightarrow> string" where
  "fixed_decimal 0 n = []"
| "fixed_decimal (Suc k) n = fixed_decimal k (n div 10) @ [digit (n mod 10)]"

definition fresh_buffer :: Badger where
  "fresh_buffer =
     \<lparr>messageKeys = [], pendingCtr = 0, db = Some \<lparr>items = []\<rparr>,
      seq = Some \<lparr>next_num = 0\<rparr>\<rparr>"

definition key0 :: key where
  "key0 = ''00000000000000000000''"

definition pushed_buffer :: Badger where
  "pushed_buffer =
     \<lparr>messageKeys = [key0], pendingCtr = 1, db = Some \<lparr>items = [(key0, ''A'')]\<rparr>,
      seq = Some \<lparr>next_num = 1\<rparr>\<rparr>"

definition taken_buffer :: Badger where
  "taken_buffer =
     \<lparr>messageKeys = [], pendingCtr = 1, db = Some \<lparr>items = [(key0, ''A'')]\<rparr>,
      seq = Some \<lparr>next_num = 1\<rparr>\<rparr>"

definition closed_buffer :: Badger where
  "closed_buffer = \<lparr>messageKeys = [], pendingCtr = 1, db = None, seq = None\<rparr>"

definition counted :: "system \<Rightarrow> bool" where
  "counted s =
     (pendingCtr (buf s) =
        int (length (messageKeys (buf s))) + int (length (reading s)) + int (length (unacked s)))"

chapter \<open>Properties of the mapping interpreter\<close>

section \<open>LineAndColOf\<close>

lemma RuneLen_pos: "1 \<le> RuneLen r"
  by (simp add: RuneLen_def)

lemma RuneLen_single: "0 \<le> r \<Longrightarrow> r < 128 \<Longrightarrow> RuneLen r = 1"
  by (simp add: RuneLen_def)

lemma len_bytes_ge: "int (length l) \<le> len_bytes l"
  unfolding len_bytes_def
  by (induction l) (use RuneLen_pos in \<open>auto simp: add_mono\<close>)

lemma len_bytes_nonneg: "0 \<le> len_bytes l"
  using len_bytes_ge [of l] by simp

lemma Split_nonempty: "Split s \<noteq> []"
  by (induction s) (auto split: list.splits)

lemma loop_line_ge: "line \<le> fst (LineAndColOf_loop ls line char)"
proof (induction ls arbitrary: line char)
  case Nil
  show ?case by simp
next
  case (Cons l ls)
  show ?case using Cons [of "line + 1" "char - len_bytes l - 1"] by simp
qed

lemma LineAndColOf_empty_input: "LineAndColOf [] clip = (1, 1 - int (length clip))"
  by (simp add: LineAndColOf_def len_bytes_def)

lemma LineAndColOf_empty_clip: "src \<noteq> [] \<Longrightarrow> LineAndColOf src [] \<noteq> (1, 1)"
proof -
  assume ne: "src \<noteq> []"
  obtain l ls where sp: "Split src = l # ls"
    using Split_nonempty [of src] by (cases "Split src") auto
  have pos: "0 < int (length src)" using ne by simp
  show ?thesis
  proof (cases "int (length src) < len_bytes l + 1")
    case True
    then show ?thesis using pos by (simp add: LineAndColOf_def sp)
  next
    case False
    have "1 \<le> fst (LineAndColOf_loop ls 1 (int (length src) - len_bytes l - 1))"
      using loop_line_ge [of 1 ls] by simp
    then show ?thesis using False
      by (auto simp add: LineAndColOf_def sp split: prod.splits)
  qed
qed

lemma col_after_Nil: "col_after [] = 0"
  by (simp add: col_after_def)

lemma col_after_Cons_nl: "col_after (newline # pre) = col_after pre"
  by (simp add: col_after_def takeWhile_tail)

lemma col_after_Cons_other:
  "c \<noteq> newline \<Longrightarrow>
   col_after (c # pre) = (if newline \<in> set pre then col_after pre else Suc (length pre))"
proof (cases "newline \<in> set pre")
  case True
  then show ?thesis by (simp add: col_after_def takeWhile_append1 [of newline])
next
  case False
  assume c: "c \<noteq> newline"
  have "takeWhile (\<lambda>c. c \<noteq> newline) (rev pre @ [c]) = rev pre @ [c]"
    using False c by (intro takeWhile_eq_all_conv [THEN iffD2]) auto
  then have "length (takeWhile (\<lambda>c. c \<noteq> newline) (rev pre @ [c])) = length (rev pre @ [c])"
    by (simp only:)
  then show ?thesis using False c by (simp add: col_after_def del: takeWhile_eq_all_conv)
qed

text \<open>
  The loop on a source whose runes before the clip are single bytes: it stops on the
  line of the clip, with the offset into that line.
\<close>

lemma loop_position:
  "single_byte pre \<Longrightarrow>
   LineAndColOf_loop (Split (pre @ rest)) line (int (length pre)) =
     (line + int (count_list pre newline), int (col_after pre))"
proof (induction pre arbitrary: line)
  case Nil
  obtain l ls where sp: "Split rest = l # ls"
    using Split_nonempty [of rest] by (cases "Split rest") auto
  show ?case using len_bytes_nonneg [of l] by (simp add: sp col_after_Nil)
next
  case (Cons c pre)
  have sb: "single_byte pre" and c1: "RuneLen c = 1"
    using Cons.prems by (simp_all add: single_byte_def RuneLen_single)
  note IH = Cons.IH [OF sb]
  show ?case
  proof (cases "c = newline")
    case True
    have "LineAndColOf_loop (Split ((c # pre) @ rest)) line (int (length (c # pre))) =
          LineAndColOf_loop (Split (pre @ rest)) (line + 1) (int (length pre))"
      using True by (simp add: len_bytes_def)
    then show ?thesis using True IH [of "line + 1"] by (simp add: col_after_Cons_nl)
  next
    case False
    obtain l ls where sp: "Split (pre @ rest) = l # ls"
      using Split_nonempty [of "pre @ rest"] by (cases "Split (pre @ rest)") auto
    have lb: "len_bytes (c # l) = len_bytes l + 1"
      by (simp add: len_bytes_def c1)
    show ?thesis
    proof (cases "int (length pre) < len_bytes l + 1")
      case True
      have r: "LineAndColOf_loop (Split (pre @ rest)) line (int (length pre)) =
               (line, int (length pre))"
        using True by (simp add: sp)
      have cnt: "count_list pre newline = 0" and col: "col_after pre = length pre"
        using IH [of line] r by simp_all
      have nl: "newline \<notin> set pre" using cnt by (simp add: count_list_0_iff)
      have "LineAndColOf_loop (Split ((c # pre) @ rest)) line (int (length (c # pre))) =
            (line, int (length pre) + 1)"
        using False True by (simp add: sp lb)
      then show ?thesis using False cnt nl by (simp add: col_after_Cons_other)
    next
      case nfit: False
      have r: "LineAndColOf_loop (Split (pre @ rest)) line (int (length pre)) =
               LineAndColOf_loop ls (line + 1) (int (length pre) - len_bytes l - 1)"
        using nfit by (simp add: sp)
      have "line + 1 \<le>
            fst (LineAndColOf_loop ls (line + 1) (int (length pre) - len_bytes l - 1))"
        by (rule loop_line_ge)
      then have "0 < count_list pre newline" using IH [of line] r by simp
      then have nl: "newline \<in> set pre" by (metis count_list_0_iff less_numeral_extra(3))
      have "LineAndColOf_loop (Split ((c # pre) @ rest)) line (int (length (c # pre))) =
            LineAndColOf_loop ls (line + 1) (int (length pre) - len_bytes l - 1)"
        using False nfit by (simp add: sp lb)
      then show ?thesis using False nl r IH [of line] by (simp add: col_after_Cons_other)
    qed
  qed
qed

text \<open>
  C7, as the code has it. For the source "a", newline, "b", newline, "c" and the clip that
  begins at "c", \<open>LineAndColOf\<close> is (3, 1). For a clip that follows a prefix of single-byte
  runes it is 1 + the number of newlines of the prefix and 1 + the number of runes after
  the prefix's last newline. With both slices empty it is (1, 1); with only one of them
  empty it is never (1, 1): an empty input gives column 1 - len(clip), and an empty clip
  the position after the end of the input.
\<close>

theorem LineAndColOf_position:
  "LineAndColOf [97, 10, 98, 10, 99] [99] = (3, 1) \<and>
   (single_byte pre \<longrightarrow>
      LineAndColOf (pre @ clip) clip =
        (1 + int (count_list pre newline), 1 + int (col_after pre))) \<and>
   LineAndColOf [] [] = (1, 1) \<and>
   LineAndColOf [] clip = (1, 1 - int (length clip)) \<and>
   (LineAndColOf [] clip = (1, 1)) = (clip = []) \<and>
   (LineAndColOf src [] = (1, 1)) = (src = [])"
proof -
  have a: "LineAndColOf [97, 10, 98, 10, 99] [99] = (3, 1)"
    by (simp add: LineAndColOf_def newline_def len_bytes_def RuneLen_def)
  have b: "single_byte pre \<longrightarrow>
      LineAndColOf (pre @ clip) clip =
        (1 + int (count_list pre newline), 1 + int (col_after pre))"
    using loop_position [of pre clip 0] by (simp add: LineAndColOf_def)
  have c: "(LineAndColOf [] clip = (1, 1)) = (clip = [])"
    by (simp add: LineAndColOf_empty_input)
  have d: "(LineAndColOf src [] = (1, 1)) = (src = [])"
    using LineAndColOf_empty_clip [of src] by (auto simp: LineAndColOf_empty_input)
  show ?thesis using a b c d by (simp add: LineAndColOf_empty_input)
qed

theorem LineAndColOf_position_witness:
  "single_byte [97, 10, 98, 10] \<and>
   LineAndColOf ([97, 10, 98, 10] @ [99]) [99] = (3, 1) \<and>
   LineAndColOf [] [120] = (1, 0)"
  using LineAndColOf_position [of "[97, 10, 98, 10]" "[99]" "[]"]
    LineAndColOf_position [of "[]" "[120]" "[]"]
  by (simp add: single_byte_def newline_def col_after_def)

text \<open>
  The claim of C7 that an empty clip gives (1, 1) fails: for the source "ab" and the empty
  clip the position is (1, 3).
\<close>

theorem LineAndColOf_empty_clip_counterexample:
  "LineAndColOf [97, 98] [] = (1, 3) \<and> LineAndColOf [97, 98] [] \<noteq> (1, 1)"
  by (simp add: LineAndColOf_def newline_def len_bytes_def RuneLen_def)

text \<open>
  Where a rune before the clip takes more than one byte, the offset in runes is compared
  with lengths in bytes: the clip "b" of the source "e-acute", newline, "b" is on line 2,
  and the result is (1, 3).
\<close>

lemma LineAndColOf_two_byte_rune: "LineAndColOf [233, 10, 98] [98] = (1, 3)"
  by (simp add: LineAndColOf_def newline_def len_bytes_def RuneLen_def)

section \<open>Running queries\<close>


section \<open>The result of QueryPart\<close>

lemma QueryPart_stmt_keeps_value:
  assumes "(\<forall>ctx lz. fst (exec_with (lazyValue parse msg index) (query stmt ctx) lz) = Inr Nothing) \<or>
           (\<forall>res actx. Value (fst (assignment stmt res actx)) = Value actx)"
    and "QueryPart_stmt parse e index msg stmt st = (st', None)"
  shows "newValue st' = newValue st"
proof -
  let ?ctx = "\<lparr>FunctionContext.Maps = maps e, FunctionContext.Vars = QueryPart_locals.vars st,
               Index = index, MsgBatch = msg\<rparr>"
  obtain r lz where x: "exec_with (lazyValue parse msg index) (query stmt ?ctx)
      (QueryPart_locals.lazy st) = (r, lz)"
    by (cases "exec_with (lazyValue parse msg index) (query stmt ?ctx) (QueryPart_locals.lazy st)")
  show ?thesis
  proof (cases r)
    case (Inl err)
    then show ?thesis using assms(2) x by (simp add: QueryPart_stmt_def)
  next
    case (Inr res)
    show ?thesis
    proof (cases "res = Nothing")
      case True
      then show ?thesis using assms(2) x Inr by (auto simp: QueryPart_stmt_def)
    next
      case False
      then have "fst (exec_with (lazyValue parse msg index) (query stmt ?ctx)
          (QueryPart_locals.lazy st)) \<noteq> Inr Nothing"
        using x Inr by simp
      then have keep: "\<forall>res actx. Value (fst (assignment stmt res actx)) = Value actx"
        using assms(1) by blast
      let ?a = "\<lparr>Maps = maps e, Vars = QueryPart_locals.vars st, Meta = None,
                 Value = Some (newValue st)\<rparr>"
      obtain actx er where a: "assignment stmt res ?a = (actx, er)"
        by (cases "assignment stmt res ?a")
      have "Value actx = Some (newValue st)"
        using keep [rule_format, of res ?a] a by simp
      then show ?thesis
        using assms(2) x Inr False a by (cases er) (auto simp: QueryPart_stmt_def)
    qed
  qed
qed

lemma QueryPart_loop_keeps_value:
  "\<forall>stmt \<in> set stmts.
     (\<forall>ctx lz. fst (exec_with (lazyValue parse msg index) (query stmt ctx) lz) = Inr Nothing) \<or>
     (\<forall>res actx. Value (fst (assignment stmt res actx)) = Value actx) \<Longrightarrow>
   QueryPart_loop parse e index msg stmts st = (st', None) \<Longrightarrow>
   newValue st' = newValue st"
proof (induction stmts arbitrary: st)
  case Nil
  then show ?case by simp
next
  case (Cons stmt rest)
  obtain st1 r where s: "QueryPart_stmt parse e index msg stmt st = (st1, r)"
    by (cases "QueryPart_stmt parse e index msg stmt st")
  have r: "r = None" using Cons.prems(2) s by (cases r) simp_all
  have l: "QueryPart_loop parse e index msg rest st1 = (st', None)"
    using Cons.prems(2) s r by simp
  have k: "newValue st1 = newValue st"
    using QueryPart_stmt_keeps_value [of parse msg index stmt e st st1] Cons.prems(1) s r
    by simp
  have "\<forall>stmt \<in> set rest.
     (\<forall>ctx lz. fst (exec_with (lazyValue parse msg index) (query stmt ctx) lz) = Inr Nothing) \<or>
     (\<forall>res actx. Value (fst (assignment stmt res actx)) = Value actx)"
    using Cons.prems(1) by simp
  from Cons.IH [OF this l] k show ?case by simp
qed

lemma QueryPart_loop_all_Nothing:
  "\<forall>stmt \<in> set stmts. \<forall>ctx lz.
     fst (exec_with (lazyValue parse msg index) (query stmt ctx) lz) = Inr Nothing \<Longrightarrow>
   snd (QueryPart_loop parse e index msg stmts st) = None"
proof (induction stmts arbitrary: st)
  case Nil
  then show ?case by simp
next
  case (Cons stmt rest)
  let ?ctx = "\<lparr>FunctionContext.Maps = maps e, FunctionContext.Vars = QueryPart_locals.vars st,
               Index = index, MsgBatch = msg\<rparr>"
  have "fst (exec_with (lazyValue parse msg index) (query stmt ?ctx) (QueryPart_locals.lazy st)) =
          Inr Nothing"
    using Cons.prems by simp
  then have s: "snd (QueryPart_stmt parse e index msg stmt st) = None"
    by (auto simp: QueryPart_stmt_def split: prod.splits)
  have "\<forall>stmt \<in> set rest. \<forall>ctx lz.
     fst (exec_with (lazyValue parse msg index) (query stmt ctx) lz) = Inr Nothing"
    using Cons.prems by simp
  from Cons.IH [OF this] show ?case using s
    by (cases "QueryPart_stmt parse e index msg stmt st") simp
qed

lemma QueryPart_never_assigned:
  assumes "\<forall>stmt \<in> set (statements e).
     (\<forall>ctx lz. fst (exec_with (lazyValue parse msg index) (query stmt ctx) lz) = Inr Nothing) \<or>
     (\<forall>res actx. Value (fst (assignment stmt res actx)) = Value actx)"
    and "QueryPart_run parse e index msg = (st, None)"
  shows "newValue st = Nothing \<and>
         QueryPart parse e index msg = Inl (TypeError ''mapping'' ValueNothing [ValueBool])"
proof -
  have "newValue st = Nothing"
    using QueryPart_loop_keeps_value [OF assms(1)] assms(2)
    by (fastforce simp: QueryPart_run_def)
  then show ?thesis using assms(2) by (simp add: QueryPart_def NewTypeErrorFrom_def)
qed

lemma QueryPart_all_Nothing:
  assumes "\<forall>stmt \<in> set (statements e). \<forall>ctx lz.
     fst (exec_with (lazyValue parse msg index) (query stmt ctx) lz) = Inr Nothing"
  shows "QueryPart parse e index msg = Inl (TypeError ''mapping'' ValueNothing [ValueBool])"
proof -
  obtain st r where run: "QueryPart_run parse e index msg = (st, r)"
    by (cases "QueryPart_run parse e index msg")
  have "snd (QueryPart_run parse e index msg) = None"
    unfolding QueryPart_run_def by (rule QueryPart_loop_all_Nothing [OF assms])
  then have "r = None" using run by simp
  then show ?thesis
    using QueryPart_never_assigned [of e parse msg index st] assms run by blast
qed

text \<open>
  C4. When the loop of \<open>QueryPart\<close> ends without an error, with the final root value
  \<open>newValue st\<close>: \<open>QueryPart\<close> returns true exactly when that value is the boolean true, it
  returns false when the value is the boolean false, and for a value that is no boolean
  it fails with the type error that names the type of the value and the expected type
  bool. The root value starts as \<open>Nothing\<close>: a program without statements, a program whose
  statements all yield \<open>Nothing\<close>, and a program that ends without error and in which every
  statement yields \<open>Nothing\<close> or has an assignment that does not write the root value, all
  end with \<open>Nothing\<close> and fail with the type error that names it. An error of the loop is
  returned as it is.
\<close>

theorem QueryPart_result:
  "(QueryPart_run parse e index msg = (st, None) \<longrightarrow>
      (QueryPart parse e index msg = Inr True) = (newValue st = VBool True) \<and>
      (newValue st = VBool False \<longrightarrow> QueryPart parse e index msg = Inr False) \<and>
      ((\<forall>b. newValue st \<noteq> VBool b) \<longrightarrow>
         QueryPart parse e index msg =
           Inl (TypeError ''mapping'' (ITypeOf (newValue st)) [ValueBool]))) \<and>
   (QueryPart_run parse e index msg = (st, Some err) \<longrightarrow>
      QueryPart parse e index msg = Inl err) \<and>
   (statements e = [] \<longrightarrow>
      QueryPart parse e index msg = Inl (TypeError ''mapping'' ValueNothing [ValueBool])) \<and>
   ((\<forall>stmt \<in> set (statements e). \<forall>ctx lz.
        fst (exec_with (lazyValue parse msg index) (query stmt ctx) lz) = Inr Nothing) \<longrightarrow>
      QueryPart parse e index msg = Inl (TypeError ''mapping'' ValueNothing [ValueBool])) \<and>
   ((\<forall>stmt \<in> set (statements e).
        (\<forall>ctx lz. fst (exec_with (lazyValue parse msg index) (query stmt ctx) lz) = Inr Nothing) \<or>
        (\<forall>res actx. Value (fst (assignment stmt res actx)) = Value actx)) \<and>
    QueryPart_run parse e index msg = (st, None) \<longrightarrow>
      newValue st = Nothing \<and>
      QueryPart parse e index msg = Inl (TypeError ''mapping'' ValueNothing [ValueBool]))"
proof -
  have a: "(QueryPart_run parse e index msg = (st, None) \<longrightarrow>
      (QueryPart parse e index msg = Inr True) = (newValue st = VBool True) \<and>
      (newValue st = VBool False \<longrightarrow> QueryPart parse e index msg = Inr False) \<and>
      ((\<forall>b. newValue st \<noteq> VBool b) \<longrightarrow>
         QueryPart parse e index msg =
           Inl (TypeError ''mapping'' (ITypeOf (newValue st)) [ValueBool]))) \<and>
   (QueryPart_run parse e index msg = (st, Some err) \<longrightarrow>
      QueryPart parse e index msg = Inl err) \<and>
   (statements e = [] \<longrightarrow>
      QueryPart parse e index msg = Inl (TypeError ''mapping'' ValueNothing [ValueBool]))"
    by (auto simp: QueryPart_def QueryPart_run_def NewTypeErrorFrom_def split: val.splits)
  show ?thesis
    using a QueryPart_all_Nothing [of e parse msg index]
      QueryPart_never_assigned [of e parse msg index st]
    by blast
qed

theorem QueryPart_result_witness:
  "QueryPart parse_literal (program [root_gets this_query]) 0 [raw_part ''true''] = Inr True \<and>
   QueryPart parse_literal (program [root_gets this_query]) 0 [raw_part ''false''] = Inr False \<and>
   QueryPart parse_literal (program [root_gets this_query]) 0 [raw_part ''null''] =
     Inl (TypeError ''mapping'' ValueNull [ValueBool]) \<and>
   QueryPart parse_literal (program []) 0 [raw_part ''true''] =
     Inl (TypeError ''mapping'' ValueNothing [ValueBool]) \<and>
   QueryPart parse_literal (program [root_gets (\<lambda>ctx. Return (Inl (External ''division by zero'')))])
       0 [raw_part ''true''] =
     Inl (Errorf ''failed assignment (line %v): %w'' [0] (External ''division by zero'')) \<and>
   QueryPart parse_literal (program [root_gets (literal_query Nothing)]) 0 [raw_part ''true''] =
     Inl (TypeError ''mapping'' ValueNothing [ValueBool]) \<and>
   QueryPart parse_literal
       (program [root_gets (literal_query Nothing), var_gets ''x'' (literal_query (VBool True))])
       0 [raw_part ''true''] =
     Inl (TypeError ''mapping'' ValueNothing [ValueBool]) \<and>
   QueryPart_run parse_literal
       (program [root_gets (literal_query Nothing), var_gets ''x'' (literal_query (VBool True))])
       0 [raw_part ''true''] =
     (\<lparr>newValue = Nothing, QueryPart_locals.vars = [''x'' \<mapsto> VBool True],
       QueryPart_locals.lazy = lazy_init\<rparr>, None)"
  using
    QueryPart_result [of parse_literal "program [root_gets this_query]" 0 "[raw_part ''true'']"
      "\<lparr>newValue = VBool True, QueryPart_locals.vars = Map.empty,
        QueryPart_locals.lazy =
          \<lparr>valuePtr = Some (VBool True), parseErr = None, lazyValue_calls = 1,
           JSON_calls = 1\<rparr>\<rparr>"]
    QueryPart_result [of parse_literal "program [root_gets this_query]" 0 "[raw_part ''false'']"
      "\<lparr>newValue = VBool False, QueryPart_locals.vars = Map.empty,
        QueryPart_locals.lazy =
          \<lparr>valuePtr = Some (VBool False), parseErr = None, lazyValue_calls = 1,
           JSON_calls = 1\<rparr>\<rparr>"]
    QueryPart_result [of parse_literal "program [root_gets this_query]" 0 "[raw_part ''null'']"
      "\<lparr>newValue = Null, QueryPart_locals.vars = Map.empty,
        QueryPart_locals.lazy =
          \<lparr>valuePtr = Some Null, parseErr = None, lazyValue_calls = 1, JSON_calls = 1\<rparr>\<rparr>"]
    QueryPart_result [of parse_literal "program []" 0 "[raw_part ''true'']"]
    QueryPart_result [of parse_literal
      "program [root_gets (\<lambda>ctx. Return (Inl (External ''division by zero'')))]" 0
      "[raw_part ''true'']"
      "\<lparr>newValue = Nothing, QueryPart_locals.vars = Map.empty,
        QueryPart_locals.lazy = lazy_init\<rparr>"
      "Errorf ''failed assignment (line %v): %w'' [0] (External ''division by zero'')"]
    QueryPart_result [of parse_literal "program [root_gets (literal_query Nothing)]" 0
      "[raw_part ''true'']"
      "\<lparr>newValue = Nothing, QueryPart_locals.vars = Map.empty,
        QueryPart_locals.lazy = lazy_init\<rparr>"]
    QueryPart_result [of parse_literal
      "program [root_gets (literal_query Nothing), var_gets ''x'' (literal_query (VBool True))]"
      0 "[raw_part ''true'']"
      "\<lparr>newValue = Nothing, QueryPart_locals.vars = [''x'' \<mapsto> VBool True],
        QueryPart_locals.lazy = lazy_init\<rparr>"]
  by (simp add: QueryPart_run_def QueryPart_stmt_def program_def root_gets_def
      this_query_def stmt_line_def no_context_error_def root_assignment_def lazyValue_def
      lazy_init_def Part_JSON_def Message_Get_def Message_Len_def raw_part_def
      parse_literal_def Let_def var_gets_def literal_query_def var_assignment_def)

section \<open>The result of mapPart\<close>

text \<open>
  C3. When the loop of \<open>mapPart\<close> ends without an error, on the part \<open>newPart\<close> (the copy
  of the batch's part for \<open>MapPart\<close>, the given part for \<open>MapOnto\<close>) and with the final
  working value \<open>newObj st\<close>: for \<open>Delete\<close> the result is the nil part; for \<open>Nothing\<close> the
  part is returned with the payload it had; for a string or a byte string the raw
  payload of the part is those bytes; for every other value the content of the part is
  that value as structured JSON. The part carries the metadata of the end of the loop.
\<close>

theorem mapPart_dispatch:
  "mapPart_run parse e appendTo index reference = (newPart, st, None) \<Longrightarrow>
     newPart = (case appendTo of None \<Rightarrow> Message_Get reference index | Some p \<Rightarrow> p) \<and>
     (newObj st = Delete \<longrightarrow> mapPart parse e appendTo index reference = Inr None) \<and>
     (newObj st = Nothing \<longrightarrow>
        mapPart parse e appendTo index reference =
          Inr (Some \<lparr>content = content newPart, metadata = newMeta st\<rparr>)) \<and>
     (\<forall>t. newObj st = VString t \<or> newObj st = VBytes t \<longrightarrow>
        mapPart parse e appendTo index reference =
          Inr (Some \<lparr>content = Raw t, metadata = newMeta st\<rparr>)) \<and>
     (newObj st \<noteq> Delete \<and> newObj st \<noteq> Nothing \<and>
      (\<forall>t. newObj st \<noteq> VString t \<and> newObj st \<noteq> VBytes t) \<longrightarrow>
        mapPart parse e appendTo index reference =
          Inr (Some \<lparr>content = Structured (newObj st), metadata = newMeta st\<rparr>))"
  by (cases "newObj st")
     (auto simp: mapPart_def mapPart_run_def mapPart_seed_def mapPart_result_def Part_Set_def
        Part_SetJSON_def Part_Copy_def split: option.splits prod.splits)

section \<open>The seed of MapOnto\<close>


lemma seed_parses:
  "Part_JSON parse p = Inr v \<Longrightarrow> mapPart_seed parse (Some p) index reference = (p, v)"
  by (simp add: mapPart_seed_def)

section \<open>Statements that yield Nothing\<close>


section \<open>The lazy structured view is parsed at most once\<close>

lemma lazyValue_cached:
  "settled s \<Longrightarrow>
   lazyValue parse msg index s = (valuePtr s, s\<lparr>lazyValue_calls := lazyValue_calls s + 1\<rparr>)"
  by (auto simp: lazyValue_def settled_def Let_def)

lemma lazyValue_first:
  "\<not> settled s \<Longrightarrow>
   lazyValue parse msg index s =
     (case Part_JSON parse (Message_Get msg index) of
        Inr v \<Rightarrow>
          (Some v, s\<lparr>valuePtr := Some v, lazyValue_calls := lazyValue_calls s + 1,
                     JSON_calls := JSON_calls s + 1\<rparr>)
      | Inl err \<Rightarrow>
          (None, s\<lparr>parseErr :=
                      Some (if errors_Is err ErrMessagePartNotExist
                            then New ''message is empty''
                            else Errorf ''parse as json: %w'' [] err),
                    lazyValue_calls := lazyValue_calls s + 1,
                    JSON_calls := JSON_calls s + 1\<rparr>))"
  by (auto simp: lazyValue_def settled_def Let_def split: sum.splits)

lemma lazyValue_parsed_once:
  "parsed_once s \<Longrightarrow> parsed_once (snd (lazyValue parse msg index s))"
proof (cases "settled s")
  case True
  assume "parsed_once s"
  then show ?thesis using True
    by (auto simp: lazyValue_cached parsed_once_def settled_def)
next
  case False
  assume "parsed_once s"
  then show ?thesis using False
    by (auto simp: lazyValue_first parsed_once_def settled_def split: sum.splits)
qed

lemma exec_with_parsed_once:
  "parsed_once s \<Longrightarrow> parsed_once (snd (exec_with (lazyValue parse msg index) q s))"
proof (induction q arbitrary: s)
  case (Return r)
  then show ?case by simp
next
  case (Demand k)
  obtain p s' where l: "lazyValue parse msg index s = (p, s')"
    by (cases "lazyValue parse msg index s")
  have "parsed_once s'"
    using lazyValue_parsed_once [OF Demand.prems, of parse msg index] l by simp
  then show ?case using Demand.IH [of "k p" s'] l by (simp add: rangeI)
qed

lemma exec_with_settled:
  "settled s \<Longrightarrow>
   valuePtr (snd (exec_with (lazyValue parse msg index) q s)) = valuePtr s \<and>
   parseErr (snd (exec_with (lazyValue parse msg index) q s)) = parseErr s \<and>
   JSON_calls (snd (exec_with (lazyValue parse msg index) q s)) = JSON_calls s"
proof (induction q arbitrary: s)
  case (Return r)
  then show ?case by simp
next
  case (Demand k)
  have "settled (s\<lparr>lazyValue_calls := lazyValue_calls s + 1\<rparr>)"
    using Demand.prems by (simp add: settled_def)
  from Demand.IH [OF _ this, of "k (valuePtr s)"] show ?case
    using Demand.prems by (simp add: lazyValue_cached rangeI)
qed

lemma QueryPart_stmt_lazy:
  "QueryPart_locals.lazy (fst (QueryPart_stmt parse e index msg stmt st)) =
   snd (exec_with (lazyValue parse msg index)
          (query stmt \<lparr>FunctionContext.Maps = maps e, FunctionContext.Vars = QueryPart_locals.vars st,
                        Index = index, MsgBatch = msg\<rparr>) (QueryPart_locals.lazy st))"
  by (auto simp: QueryPart_stmt_def split: prod.splits sum.splits option.splits)

lemma mapPart_stmt_lazy:
  "lazy (fst (mapPart_stmt parse e index msg stmt st)) =
   snd (exec_with (lazyValue parse msg index)
          (query stmt \<lparr>FunctionContext.Maps = maps e, FunctionContext.Vars = vars st,
                        Index = index, MsgBatch = msg\<rparr>) (lazy st))"
  by (auto simp: mapPart_stmt_def split: prod.splits sum.splits option.splits)

lemma QueryPart_loop_parsed_once:
  "parsed_once (QueryPart_locals.lazy st) \<Longrightarrow>
   parsed_once (QueryPart_locals.lazy (fst (QueryPart_loop parse e index msg stmts st)))"
proof (induction stmts arbitrary: st)
  case Nil
  then show ?case by simp
next
  case (Cons stmt rest)
  obtain st' r where s: "QueryPart_stmt parse e index msg stmt st = (st', r)"
    by (cases "QueryPart_stmt parse e index msg stmt st")
  have c: "parsed_once (QueryPart_locals.lazy st')"
    using QueryPart_stmt_lazy [of parse e index msg stmt st] s
      exec_with_parsed_once [OF Cons.prems] by simp
  show ?case using s c Cons.IH [OF c] by (cases r) simp_all
qed

lemma mapPart_loop_parsed_once:
  "parsed_once (lazy st) \<Longrightarrow>
   parsed_once (lazy (fst (mapPart_loop parse e index msg stmts st)))"
proof (induction stmts arbitrary: st)
  case Nil
  then show ?case by simp
next
  case (Cons stmt rest)
  obtain st' r where s: "mapPart_stmt parse e index msg stmt st = (st', r)"
    by (cases "mapPart_stmt parse e index msg stmt st")
  have c: "parsed_once (lazy st')"
    using mapPart_stmt_lazy [of parse e index msg stmt st] s
      exec_with_parsed_once [OF Cons.prems] by simp
  show ?case using s c Cons.IH [OF c] by (cases r) simp_all
qed

lemma parsed_once_init: "parsed_once lazy_init"
  by (simp add: parsed_once_def lazy_init_def settled_def)

lemma QueryPart_run_parsed_once:
  "parsed_once (QueryPart_locals.lazy (fst (QueryPart_run parse e index msg)))"
  unfolding QueryPart_run_def
  by (rule QueryPart_loop_parsed_once) (simp add: parsed_once_init)

lemma mapPart_run_parsed_once:
  "parsed_once (lazy (fst (snd (mapPart_run parse e appendTo index msg))))"
proof -
  obtain newPart obj where sd: "mapPart_seed parse appendTo index msg = (newPart, obj)"
    by (cases "mapPart_seed parse appendTo index msg")
  have "parsed_once (lazy (fst (mapPart_loop parse e index msg (statements e)
           \<lparr>newObj = obj, newMeta = Part_Metadata newPart, vars = Map.empty,
            lazy = lazy_init\<rparr>)))"
    by (rule mapPart_loop_parsed_once) (simp add: parsed_once_init)
  then show ?thesis by (simp add: mapPart_run_def sd)
qed

text \<open>
  C6. In a run of \<open>QueryPart\<close> or of \<open>mapPart\<close> the closure calls \<open>JSON()\<close> on the batch's
  part once if the queries of the run called the closure at all, and not at all if they
  did not. The first call from the initial state parses and keeps the value, or keeps
  the error. A call in a state that holds a value or an error returns the pointer held
  and parses nothing, and whatever a query asks from such a state on, the value, the error
  and the number of parses stay as they are. (The seeding of \<open>MapOnto\<close> reads the JSON of
  the part it is given: a call on that part, not on the view of the batch.)
\<close>

theorem lazy_parse_once:
  "JSON_calls (QueryPart_locals.lazy (fst (QueryPart_run parse e index msg))) =
     (if lazyValue_calls (QueryPart_locals.lazy (fst (QueryPart_run parse e index msg))) = 0
      then 0 else 1) \<and>
   JSON_calls (lazy (fst (snd (mapPart_run parse e appendTo index msg)))) =
     (if lazyValue_calls (lazy (fst (snd (mapPart_run parse e appendTo index msg)))) = 0
      then 0 else 1) \<and>
   lazyValue parse msg index lazy_init =
     (case Part_JSON parse (Message_Get msg index) of
        Inr v \<Rightarrow>
          (Some v, \<lparr>valuePtr = Some v, parseErr = None, lazyValue_calls = 1, JSON_calls = 1\<rparr>)
      | Inl err \<Rightarrow>
          (None,
           \<lparr>valuePtr = None,
            parseErr = Some (if errors_Is err ErrMessagePartNotExist
                             then New ''message is empty''
                             else Errorf ''parse as json: %w'' [] err),
            lazyValue_calls = 1, JSON_calls = 1\<rparr>)) \<and>
   (settled s \<longrightarrow>
      lazyValue parse msg index s =
        (valuePtr s, s\<lparr>lazyValue_calls := lazyValue_calls s + 1\<rparr>) \<and>
      valuePtr (snd (exec_with (lazyValue parse msg index) q s)) = valuePtr s \<and>
      parseErr (snd (exec_with (lazyValue parse msg index) q s)) = parseErr s \<and>
      JSON_calls (snd (exec_with (lazyValue parse msg index) q s)) = JSON_calls s)"
proof -
  have a: "JSON_calls (QueryPart_locals.lazy (fst (QueryPart_run parse e index msg))) =
     (if lazyValue_calls (QueryPart_locals.lazy (fst (QueryPart_run parse e index msg))) = 0
      then 0 else 1)"
    using QueryPart_run_parsed_once [of parse e index msg] by (simp add: parsed_once_def)
  have b: "JSON_calls (lazy (fst (snd (mapPart_run parse e appendTo index msg)))) =
     (if lazyValue_calls (lazy (fst (snd (mapPart_run parse e appendTo index msg)))) = 0
      then 0 else 1)"
    using mapPart_run_parsed_once [of parse e appendTo index msg] by (simp add: parsed_once_def)
  have ns: "\<not> settled lazy_init" by (simp add: settled_def lazy_init_def)
  have c: "lazyValue parse msg index lazy_init =
     (case Part_JSON parse (Message_Get msg index) of
        Inr v \<Rightarrow>
          (Some v, \<lparr>valuePtr = Some v, parseErr = None, lazyValue_calls = 1, JSON_calls = 1\<rparr>)
      | Inl err \<Rightarrow>
          (None,
           \<lparr>valuePtr = None,
            parseErr = Some (if errors_Is err ErrMessagePartNotExist
                             then New ''message is empty''
                             else Errorf ''parse as json: %w'' [] err),
            lazyValue_calls = 1, JSON_calls = 1\<rparr>))"
    by (simp add: lazyValue_def lazy_init_def Let_def split: sum.splits)
  show ?thesis
    using a b c lazyValue_cached [of s parse msg index] exec_with_settled [of s parse msg index q]
    by blast
qed


section \<open>Runs of the small programs\<close>

theorem mapPart_dispatch_witness:
  "mapPart parse_literal (program [root_gets (literal_query Delete)]) None 0 [raw_part ''true''] =
     Inr None \<and>
   mapPart parse_literal (program [root_gets (literal_query Nothing)]) None 0 [raw_part ''true''] =
     Inr (Some (raw_part ''true'')) \<and>
   mapPart parse_literal (program [root_gets (literal_query (VString ''abc''))]) None 0
       [raw_part ''true''] =
     Inr (Some (raw_part ''abc'')) \<and>
   mapPart parse_literal (program [root_gets (literal_query (VBytes ''abc''))]) None 0
       [raw_part ''true''] =
     Inr (Some (raw_part ''abc'')) \<and>
   mapPart parse_literal (program [root_gets this_query]) None 0 [raw_part ''true''] =
     Inr (Some \<lparr>content = Structured (VBool True), metadata = Map.empty\<rparr>)"
  using
    mapPart_dispatch [of parse_literal "program [root_gets (literal_query Delete)]" None 0
      "[raw_part ''true'']" "raw_part ''true''"
      "\<lparr>newObj = Delete, newMeta = Map.empty, vars = Map.empty, lazy = lazy_init\<rparr>"]
    mapPart_dispatch [of parse_literal "program [root_gets (literal_query Nothing)]" None 0
      "[raw_part ''true'']" "raw_part ''true''"
      "\<lparr>newObj = Nothing, newMeta = Map.empty, vars = Map.empty, lazy = lazy_init\<rparr>"]
    mapPart_dispatch [of parse_literal "program [root_gets (literal_query (VString ''abc''))]"
      None 0 "[raw_part ''true'']" "raw_part ''true''"
      "\<lparr>newObj = VString ''abc'', newMeta = Map.empty, vars = Map.empty, lazy = lazy_init\<rparr>"]
    mapPart_dispatch [of parse_literal "program [root_gets (literal_query (VBytes ''abc''))]"
      None 0 "[raw_part ''true'']" "raw_part ''true''"
      "\<lparr>newObj = VBytes ''abc'', newMeta = Map.empty, vars = Map.empty, lazy = lazy_init\<rparr>"]
    mapPart_dispatch [of parse_literal "program [root_gets this_query]" None 0
      "[raw_part ''true'']" "raw_part ''true''"
      "\<lparr>newObj = VBool True, newMeta = Map.empty, vars = Map.empty,
        lazy = \<lparr>valuePtr = Some (VBool True), parseErr = None, lazyValue_calls = 1,
                JSON_calls = 1\<rparr>\<rparr>"]
  by (simp add: mapPart_run_def mapPart_seed_def mapPart_stmt_def program_def root_gets_def
      this_query_def literal_query_def root_assignment_def lazyValue_def lazy_init_def
      Part_JSON_def Part_Copy_def Part_Metadata_def Message_Get_def Message_Len_def
      raw_part_def parse_literal_def Let_def)



theorem lazy_parse_once_witness:
  "settled \<lparr>valuePtr = Some Null, parseErr = None, lazyValue_calls = 1, JSON_calls = 1\<rparr> \<and>
   lazyValue parse_literal [raw_part ''true''] 0
     \<lparr>valuePtr = Some Null, parseErr = None, lazyValue_calls = 1, JSON_calls = 1\<rparr> =
     (Some Null, \<lparr>valuePtr = Some Null, parseErr = None, lazyValue_calls = 2, JSON_calls = 1\<rparr>) \<and>
   QueryPart_locals.lazy
     (fst (QueryPart_run parse_literal (program [root_gets this_query, root_gets this_query]) 0
             [raw_part ''true''])) =
     \<lparr>valuePtr = Some (VBool True), parseErr = None, lazyValue_calls = 2, JSON_calls = 1\<rparr> \<and>
   lazy (fst (snd (mapPart_run parse_literal (program [root_gets (literal_query Null)]) None 0
                     [raw_part ''true'']))) =
     \<lparr>valuePtr = None, parseErr = None, lazyValue_calls = 0, JSON_calls = 0\<rparr>"
  using lazy_parse_once [of parse_literal
      "program [root_gets this_query, root_gets this_query]" 0 "[raw_part ''true'']" None
      "\<lparr>valuePtr = Some Null, parseErr = None, lazyValue_calls = 1, JSON_calls = 1\<rparr>"
      "Return ()"]
  by (simp add: settled_def QueryPart_run_def QueryPart_stmt_def mapPart_run_def
      mapPart_seed_def mapPart_stmt_def program_def root_gets_def this_query_def
      literal_query_def root_assignment_def lazyValue_def lazy_init_def Part_JSON_def
      Part_Copy_def Part_Metadata_def Message_Get_def Message_Len_def raw_part_def
      parse_literal_def Let_def)

chapter \<open>Properties of the durable buffer\<close>

section \<open>Keys\<close>

lemma digit_0: "digit 0 = CHR ''0''"
  by (simp add: digit_def)

lemma lt10_cases:
  "d < 10 \<Longrightarrow> d = 0 \<or> d = 1 \<or> d = 2 \<or> d = 3 \<or> d = 4 \<or> d = 5 \<or> d = 6 \<or> d = 7 \<or> d = 8 \<or> d = (9::nat)"
  by arith

lemma digit_values:
  "digit 0 = CHR ''0''" "digit (Suc 0) = CHR ''1''" "digit 2 = CHR ''2''" "digit 3 = CHR ''3''"
  "digit 4 = CHR ''4''" "digit 5 = CHR ''5''" "digit 6 = CHR ''6''" "digit 7 = CHR ''7''"
  "digit 8 = CHR ''8''" "digit 9 = CHR ''9''"
  by (simp_all add: digit_def)

lemma of_char_digit:
  assumes "d < 10"
  shows "(of_char (digit d) :: nat) = 48 + d"
  using lt10_cases [OF assms] by (elim disjE) (simp_all add: digit_values)

lemma digit_in:
  assumes "d < 10"
  shows "digit d \<in> set ''0123456789''"
  using lt10_cases [OF assms] by (elim disjE) (simp_all add: digit_values)

lemma digit_inj:
  assumes "a < 10" and "b < 10" and "digit a = digit b"
  shows "a = b"
proof -
  have "(of_char (digit a) :: nat) = of_char (digit b)"
    using assms(3) by (rule arg_cong)
  then have "48 + a = 48 + b"
    by (simp only: of_char_digit [OF assms(1)] of_char_digit [OF assms(2)])
  then show ?thesis by simp
qed

lemma length_fixed_decimal: "length (fixed_decimal k n) = k"
  by (induction k arbitrary: n) simp_all

lemma fixed_decimal_0: "fixed_decimal k 0 = replicate k (CHR ''0'')"
  by (induction k) (simp_all add: digit_0 replicate_append_same)

lemma set_fixed_decimal: "set (fixed_decimal k n) \<subseteq> set ''0123456789''"
proof (induction k arbitrary: n)
  case 0
  show ?case by simp
next
  case (Suc k)
  have "digit (n mod 10) \<in> set ''0123456789''" by (rule digit_in) simp
  then show ?case using Suc [of "n div 10"] by simp
qed

lemma length_decimal_le: "n < 10 ^ k \<Longrightarrow> 0 < k \<Longrightarrow> length (decimal n) \<le> k"
proof (induction k arbitrary: n)
  case 0
  then show ?case by simp
next
  case (Suc k)
  show ?case
  proof (cases "n < 10")
    case True
    then show ?thesis by (simp add: decimal.simps [of n])
  next
    case False
    then have k: "0 < k" using Suc.prems by (cases k) auto
    have "n div 10 < 10 ^ k" using Suc.prems by (simp add: less_mult_imp_div_less mult.commute)
    from Suc.IH [OF this k] show ?thesis using False by (simp add: decimal.simps [of n])
  qed
qed

lemma pad_decimal:
  "n < 10 ^ k \<Longrightarrow> 0 < k \<Longrightarrow>
   replicate (k - length (decimal n)) (CHR ''0'') @ decimal n = fixed_decimal k n"
proof (induction k arbitrary: n)
  case 0
  then show ?case by simp
next
  case (Suc k)
  show ?case
  proof (cases "n < 10")
    case True
    then show ?thesis by (simp add: decimal.simps [of n] fixed_decimal_0)
  next
    case False
    then have k: "0 < k" using Suc.prems by (cases k) auto
    have lt: "n div 10 < 10 ^ k" using Suc.prems by (simp add: less_mult_imp_div_less mult.commute)
    have le: "length (decimal (n div 10)) \<le> k" by (rule length_decimal_le [OF lt k])
    have "Suc k - length (decimal n) = k - length (decimal (n div 10))"
      using False le by (simp add: decimal.simps [of n])
    then show ?thesis using Suc.IH [OF lt k] False by (simp add: decimal.simps [of n])
  qed
qed

lemma unat_lt_10_20: "unat (w :: 64 word) < 10 ^ 20"
proof -
  have "unat w < 2 ^ 64" using unsigned_less [of w, where ?'a = nat] by simp
  also have "(2::nat) ^ 64 < 10 ^ 20" by simp
  finally show ?thesis .
qed

lemma Sprintf_fixed: "Sprintf_020d w = fixed_decimal 20 (unat w)"
  using pad_decimal [OF unat_lt_10_20 [of w]] by (simp add: Sprintf_020d_def Let_def)

lemma bytes_less_snoc:
  "length xs = length ys \<Longrightarrow>
   bytes_less (xs @ [c]) (ys @ [d]) =
     (bytes_less xs ys \<or> (xs = ys \<and> (of_char c :: nat) < of_char d))"
  by (induction xs ys rule: list_induct2) auto

lemma fixed_decimal_inj:
  "a < 10 ^ k \<Longrightarrow> b < 10 ^ k \<Longrightarrow> fixed_decimal k a = fixed_decimal k b \<Longrightarrow> a = b"
proof (induction k arbitrary: a b)
  case 0
  then show ?case by simp
next
  case (Suc k)
  have la: "a div 10 < 10 ^ k" and lb: "b div 10 < 10 ^ k"
    using Suc.prems by (simp_all add: less_mult_imp_div_less mult.commute)
  have eq: "fixed_decimal k (a div 10) = fixed_decimal k (b div 10)"
    and dg: "digit (a mod 10) = digit (b mod 10)"
    using Suc.prems(3) by (simp_all add: length_fixed_decimal)
  have "a div 10 = b div 10" by (rule Suc.IH [OF la lb eq])
  moreover have "a mod 10 = b mod 10" by (rule digit_inj [OF _ _ dg]) simp_all
  ultimately show ?case by (metis div_mult_mod_eq)
qed

lemma lex10:
  "ra < 10 \<Longrightarrow> rb < 10 \<Longrightarrow>
   ((10 * qa + ra :: nat) < 10 * qb + rb) = (qa < qb \<or> (qa = qb \<and> ra < rb))"
  by arith

lemma less_div_mod_10:
  "((a::nat) < b) = (a div 10 < b div 10 \<or> (a div 10 = b div 10 \<and> a mod 10 < b mod 10))"
proof -
  have "(10 * (a div 10) + a mod 10 < 10 * (b div 10) + b mod 10) =
        (a div 10 < b div 10 \<or> (a div 10 = b div 10 \<and> a mod 10 < b mod 10))"
    by (rule lex10) simp_all
  then show ?thesis by simp
qed

lemma fixed_decimal_less:
  "a < 10 ^ k \<Longrightarrow> b < 10 ^ k \<Longrightarrow>
   bytes_less (fixed_decimal k a) (fixed_decimal k b) = (a < b)"
proof (induction k arbitrary: a b)
  case 0
  then show ?case by simp
next
  case (Suc k)
  have la: "a div 10 < 10 ^ k" and lb: "b div 10 < 10 ^ k"
    using Suc.prems by (simp_all add: less_mult_imp_div_less mult.commute)
  have e: "(fixed_decimal k (a div 10) = fixed_decimal k (b div 10)) = (a div 10 = b div 10)"
    using fixed_decimal_inj [OF la lb] by auto
  show ?case
    using Suc.IH [OF la lb] e less_div_mod_10 [of a b]
    by (simp add: bytes_less_snoc length_fixed_decimal of_char_digit)
qed

lemma Sprintf_less: "bytes_less (Sprintf_020d v) (Sprintf_020d w) = (v < w)"
  using fixed_decimal_less [OF unat_lt_10_20 [of v] unat_lt_10_20 [of w]]
  by (simp only: Sprintf_fixed word_less_nat_alt)

lemma Sprintf_inj: "Sprintf_020d v = Sprintf_020d w \<Longrightarrow> v = w"
  using fixed_decimal_inj [OF unat_lt_10_20 [of v] unat_lt_10_20 [of w]]
  by (simp only: Sprintf_fixed word_unat_eq_iff)

lemma decimal_small:
  "decimal 0 = ''0''" "decimal 1 = ''1''" "decimal (Suc 0) = ''1''" "decimal 2 = ''2''" "decimal 9 = ''9''"
  "decimal 10 = ''10''"
  by (simp_all add: decimal.simps digit_values)

lemma replicate_zeros:
  "replicate 19 x = [x, x, x, x, x, x, x, x, x, x, x, x, x, x, x, x, x, x, x]"
  "replicate 18 x = [x, x, x, x, x, x, x, x, x, x, x, x, x, x, x, x, x, x]"
  by (simp_all add: eval_nat_numeral)

lemma Sprintf_small:
  "Sprintf_020d 0 = ''00000000000000000000''"
  "Sprintf_020d 1 = ''00000000000000000001''"
  "Sprintf_020d 2 = ''00000000000000000002''"
  "Sprintf_020d 9 = ''00000000000000000009''"
  "Sprintf_020d 10 = ''00000000000000000010''"
  by (simp_all add: Sprintf_020d_def decimal_small Let_def replicate_zeros)

section \<open>Pushing and taking without faults\<close>

lemma map_of_kv_insert:
  "map_of (kv_insert k v xs) k' = (if k' = k then Some v else map_of xs k')"
  by (induction xs) auto

lemma PushMessage_no_faults:
  "db b = Some d \<Longrightarrow> seq b = Some s \<Longrightarrow>
   PushMessage Bytes no_faults m b =
     (b\<lparr>messageKeys := messageKeys b @ [Sprintf_020d (next_num s)],
        pendingCtr := pendingCtr b + 1,
        db := Some (d\<lparr>items := kv_insert (Sprintf_020d (next_num s)) (Bytes m) (items d)\<rparr>),
        seq := Some (s\<lparr>next_num := next_num s + 1\<rparr>)\<rparr>, Inr 0)"
  by (simp add: PushMessage_def no_faults_def Sequence_Next_def db_Set_def Let_def)

lemma set_issued: "set (issued w n) = (\<lambda>i. Sprintf_020d (w + word_of_nat i)) ` {..<n}"
proof (induction n arbitrary: w)
  case 0
  show ?case by simp
next
  case (Suc n)
  have "(\<lambda>i. Sprintf_020d (w + word_of_nat i)) ` {..<Suc n} =
        insert (Sprintf_020d w) ((\<lambda>i. Sprintf_020d (w + 1 + word_of_nat i)) ` {..<n})"
    by (auto simp: lessThan_Suc_eq_insert_0 image_image add.assoc)
  then show ?case using Suc [of "w + 1"] by simp
qed

lemma issued_fresh:
  assumes "n < 2 ^ 64"
  shows "Sprintf_020d w \<notin> set (issued (w + 1) n)"
proof
  assume "Sprintf_020d w \<in> set (issued (w + 1) n)"
  then obtain i where i: "i < n" and e: "Sprintf_020d w = Sprintf_020d (w + 1 + word_of_nat i)"
    by (auto simp: set_issued)
  have "w = w + 1 + word_of_nat i" by (rule Sprintf_inj [OF e])
  then have "(word_of_nat (Suc i) :: 64 word) = 0"
    by (simp add: add.assoc)
  then have "(2 :: nat) ^ 64 dvd Suc i"
    by (simp only: word_of_nat_eq_0_iff len_num1 len_bit0 One_nat_def) simp
  then have "(2 :: nat) ^ 64 \<le> Suc i" by (rule dvd_imp_le) simp
  then show False using i assms by simp
qed

lemma length_issued: "length (issued w n) = n"
  by (induction n arbitrary: w) simp_all

lemma pushes_state:
  "db b = Some d \<Longrightarrow> seq b = Some s \<Longrightarrow> length ms \<le> 2 ^ 64 \<Longrightarrow>
   \<exists>d'. db (pushes Bytes no_faults ms b) = Some d' \<and>
        messageKeys (pushes Bytes no_faults ms b) =
          messageKeys b @ issued (next_num s) (length ms) \<and>
        pendingCtr (pushes Bytes no_faults ms b) = pendingCtr b + int (length ms) \<and>
        map (map_of (items d')) (issued (next_num s) (length ms)) = map (\<lambda>m. Some (Bytes m)) ms \<and>
        (\<forall>k. k \<notin> set (issued (next_num s) (length ms)) \<longrightarrow>
             map_of (items d') k = map_of (items d) k)"
proof (induction ms arbitrary: b d s)
  case Nil
  then show ?case by simp
next
  case (Cons m ms)
  let ?k = "Sprintf_020d (next_num s)"
  let ?d1 = "d\<lparr>items := kv_insert ?k (Bytes m) (items d)\<rparr>"
  let ?s1 = "s\<lparr>next_num := next_num s + 1\<rparr>"
  let ?b1 = "b\<lparr>messageKeys := messageKeys b @ [?k], pendingCtr := pendingCtr b + 1,
               db := Some ?d1, seq := Some ?s1\<rparr>"
  have p: "fst (PushMessage Bytes no_faults m b) = ?b1"
    by (simp add: PushMessage_no_faults [OF Cons.prems(1,2)])
  have len: "length ms \<le> 2 ^ 64" and lt: "length ms < 2 ^ 64"
    using Cons.prems(3) by simp_all
  obtain d' where
    d': "db (pushes Bytes no_faults ms ?b1) = Some d'"
    and keys: "messageKeys (pushes Bytes no_faults ms ?b1) =
                 messageKeys ?b1 @ issued (next_num ?s1) (length ms)"
    and ctr: "pendingCtr (pushes Bytes no_faults ms ?b1) = pendingCtr ?b1 + int (length ms)"
    and look: "map (map_of (items d')) (issued (next_num ?s1) (length ms)) =
                 map (\<lambda>m. Some (Bytes m)) ms"
    and other: "\<forall>k. k \<notin> set (issued (next_num ?s1) (length ms)) \<longrightarrow>
                  map_of (items d') k = map_of (items ?d1) k"
    using Cons.IH [of ?b1 ?d1 ?s1, OF _ _ len] by auto
  have fresh: "?k \<notin> set (issued (next_num s + 1) (length ms))"
    by (rule issued_fresh [OF lt])
  have k0: "map_of (items d') ?k = Some (Bytes m)"
    using other fresh by (simp add: map_of_kv_insert)
  have rest: "\<forall>k. k \<notin> set (issued (next_num s) (length (m # ms))) \<longrightarrow>
                 map_of (items d') k = map_of (items d) k"
    using other by (simp add: map_of_kv_insert)
  show ?case
    using d' keys ctr look k0 rest by (simp add: p)
qed

lemma NextMessage_no_faults:
  "db b = Some d \<Longrightarrow> messageKeys b = k # ks \<Longrightarrow> map_of (items d) k = Some v \<Longrightarrow>
   FromBytes v = Inr m \<Longrightarrow>
   NextMessage FromBytes no_faults b = (b\<lparr>messageKeys := ks\<rparr>, Returns (m, k))"
  by (simp add: NextMessage_def NextMessage_lock_def NextMessage_read_def db_Get_def
      no_faults_def)

lemma distinct_issued: "n \<le> 2 ^ 64 \<Longrightarrow> distinct (issued w n)"
proof (induction n arbitrary: w)
  case 0
  show ?case by simp
next
  case (Suc n)
  have lt: "n < 2 ^ 64" and le: "n \<le> 2 ^ 64" using Suc.prems by simp_all
  show ?case using issued_fresh [OF lt, of w] Suc.IH [OF le, of "w + 1"] by simp
qed

lemma map_of_filter_other:
  "k' \<noteq> k \<Longrightarrow> map_of (filter (\<lambda>kv. fst kv \<noteq> k) xs) k' = map_of xs k'"
  by (induction xs) auto

lemma AckFunc_positive_no_faults:
  "db b = Some d \<Longrightarrow>
   fst (AckFunc no_faults k True b) =
     b\<lparr>pendingCtr := pendingCtr b - 1,
       db := Some (d\<lparr>items := filter (\<lambda>kv. fst kv \<noteq> k) (items d)\<rparr>)\<rparr>"
  by (simp add: AckFunc_def db_Delete_def no_faults_def)

lemma run_ops_results:
  "db b = Some d \<Longrightarrow> messageKeys b = ks \<Longrightarrow> distinct ks \<Longrightarrow> set hs \<inter> set ks = {} \<Longrightarrow>
   map (map_of (items d)) ks = map (\<lambda>m. Some (Bytes m)) ms \<Longrightarrow>
   \<forall>m \<in> set ms. FromBytes (Bytes m) = Inr m \<Longrightarrow>
   count_list ops Take = length ks \<Longrightarrow>
   snd (snd (run_ops FromBytes no_faults ops (b, hs, rs))) = rs @ map Returns (zip ms ks)"
proof (induction ops arbitrary: b d ks hs rs ms)
  case Nil
  then show ?case by simp
next
  case (Cons op ops)
  show ?case
  proof (cases op)
    case Take
    then obtain k ks' where ks: "ks = k # ks'"
      using Cons.prems(7) by (cases ks) auto
    obtain m ms' where ms: "ms = m # ms'"
      using Cons.prems(5) ks by (cases ms) auto
    have v: "map_of (items d) k = Some (Bytes m)"
      and rest: "map (map_of (items d)) ks' = map (\<lambda>m. Some (Bytes m)) ms'"
      using Cons.prems(5) ks ms by simp_all
    have f: "FromBytes (Bytes m) = Inr m" and fr: "\<forall>m \<in> set ms'. FromBytes (Bytes m) = Inr m"
      using Cons.prems(6) ms by simp_all
    have n: "NextMessage FromBytes no_faults b = (b\<lparr>messageKeys := ks'\<rparr>, Returns (m, k))"
      using NextMessage_no_faults [of b d k ks' "Bytes m" FromBytes m] Cons.prems(1,2) ks v f
      by simp
    have dis: "distinct ks'" and dj: "set (hs @ [k]) \<inter> set ks' = {}"
      using Cons.prems(3,4) ks by auto
    have cnt: "count_list ops Take = length ks'"
      using Cons.prems(7) ks Take by simp
    have "snd (snd (run_ops FromBytes no_faults ops (b\<lparr>messageKeys := ks'\<rparr>, hs @ [k],
             rs @ [Returns (m, k)]))) = (rs @ [Returns (m, k)]) @ map Returns (zip ms' ks')"
      using Cons.IH [of "b\<lparr>messageKeys := ks'\<rparr>" d ks' "hs @ [k]" ms' "rs @ [Returns (m, k)]",
          OF _ _ dis dj rest fr cnt] Cons.prems(1) by simp
    then show ?thesis by (simp add: Take n ks ms)
  next
    case (AckPositive i)
    have cnt: "count_list ops Take = length ks"
      using Cons.prems(7) AckPositive by simp
    show ?thesis
    proof (cases "i < length hs")
      case False
      then show ?thesis
        using Cons.IH [OF Cons.prems(1-6) cnt, of rs] by (simp add: AckPositive)
    next
      case True
      let ?d' = "d\<lparr>items := filter (\<lambda>kv. fst kv \<noteq> hs ! i) (items d)\<rparr>"
      let ?b' = "b\<lparr>pendingCtr := pendingCtr b - 1, db := Some ?d'\<rparr>"
      have a: "fst (AckFunc no_faults (hs ! i) True b) = ?b'"
        by (rule AckFunc_positive_no_faults [OF Cons.prems(1)])
      have "hs ! i \<in> set hs" using True by simp
      then have "\<forall>k \<in> set ks. k \<noteq> hs ! i" using Cons.prems(4) by auto
      then have look: "map (map_of (items ?d')) ks = map (\<lambda>m. Some (Bytes m)) ms"
        using Cons.prems(5) by (simp add: map_of_filter_other cong: map_cong)
      have "snd (snd (run_ops FromBytes no_faults ops (?b', hs, rs))) =
              rs @ map Returns (zip ms ks)"
        using Cons.IH [of ?b' ?d' ks hs ms rs, OF _ _ Cons.prems(3) Cons.prems(4) look
            Cons.prems(6) cnt] Cons.prems(2) by simp
      then show ?thesis using True by (simp add: AckPositive a)
    qed
  qed
qed

lemma FIFO_run:
  assumes codec: "\<forall>m \<in> set ms. FromBytes (Bytes m) = Inr m"
    and d: "db b = Some d" and s: "seq b = Some s" and e: "messageKeys b = []"
    and n: "length ms \<le> 2 ^ 64" and t: "count_list ops Take = length ms"
  shows "snd (snd (run_ops FromBytes no_faults ops (pushes Bytes no_faults ms b, [], []))) =
           map Returns (zip ms (issued (next_num s) (length ms)))"
proof -
  obtain d' where
    d': "db (pushes Bytes no_faults ms b) = Some d'"
    and keys: "messageKeys (pushes Bytes no_faults ms b) = issued (next_num s) (length ms)"
    and look: "map (map_of (items d')) (issued (next_num s) (length ms)) =
                 map (\<lambda>m. Some (Bytes m)) ms"
    using pushes_state [OF d s n, of Bytes] e by auto
  have dis: "distinct (issued (next_num s) (length ms))"
    by (rule distinct_issued [OF n])
  have cnt: "count_list ops Take = length (issued (next_num s) (length ms))"
    using t by (simp add: length_issued)
  show ?thesis
    using run_ops_results [OF d' keys dis _ look codec cnt, of "[]" "[]"] by simp
qed

lemma Sprintf_0: "Sprintf_020d 0 = key0"
  by (simp add: Sprintf_small key0_def)

lemma NewBadger_fresh: "NewBadger no_faults \<lparr>items = []\<rparr> \<lparr>next_num = 0\<rparr> = Inr fresh_buffer"
  by (simp add: NewBadger_def no_faults_def db_Keys_def fresh_buffer_def)

lemma push_fresh:
  "PushMessage (\<lambda>m. m) no_faults ''A'' fresh_buffer = (pushed_buffer, Inr 0)"
  by (simp add: PushMessage_def fresh_buffer_def pushed_buffer_def no_faults_def
      Sequence_Next_def Sprintf_0 db_Set_def)

lemma lock_pushed: "NextMessage_lock pushed_buffer = (taken_buffer, Returns key0)"
  by (simp add: NextMessage_lock_def pushed_buffer_def taken_buffer_def)

lemma read_taken: "NextMessage_read Inr no_faults key0 taken_buffer = (taken_buffer, Inr ''A'')"
  by (simp add: NextMessage_read_def taken_buffer_def db_Get_def no_faults_def)

lemma take_pushed: "NextMessage Inr no_faults pushed_buffer = (taken_buffer, Returns (''A'', key0))"
  by (simp add: NextMessage_def lock_pushed read_taken)

lemma close_taken: "Close no_faults taken_buffer = (closed_buffer, [DbClose])"
  by (simp add: Close_def cleanUpBadger_def taken_buffer_def closed_buffer_def)

lemma reach_pushed:
  "(step (\<lambda>m. m) Inr)\<^sup>*\<^sup>* \<lparr>buf = fresh_buffer, reading = [], unacked = []\<rparr>
     \<lparr>buf = pushed_buffer, reading = [], unacked = []\<rparr>"
proof -
  have "step (\<lambda>m. m) Inr \<lparr>buf = fresh_buffer, reading = [], unacked = []\<rparr>
          \<lparr>buf = pushed_buffer, reading = [], unacked = []\<rparr>"
    using step.push [of "\<lambda>m. m" Inr "\<lparr>buf = fresh_buffer, reading = [], unacked = []\<rparr>"
        no_faults "''A''"]
    by (simp add: push_fresh)
  then show ?thesis by (rule r_into_rtranclp)
qed

lemma reach_taken:
  "(step (\<lambda>m. m) Inr)\<^sup>*\<^sup>* \<lparr>buf = fresh_buffer, reading = [], unacked = []\<rparr>
     \<lparr>buf = taken_buffer, reading = [], unacked = [key0]\<rparr>"
proof -
  have 2: "step (\<lambda>m. m) Inr \<lparr>buf = pushed_buffer, reading = [], unacked = []\<rparr>
             \<lparr>buf = taken_buffer, reading = [key0], unacked = []\<rparr>"
    using step.take_lock [of "\<lparr>buf = pushed_buffer, reading = [], unacked = []\<rparr>"
        taken_buffer key0 "\<lambda>m. m" Inr]
    by (simp add: lock_pushed)
  have 3: "step (\<lambda>m. m) Inr \<lparr>buf = taken_buffer, reading = [key0], unacked = []\<rparr>
             \<lparr>buf = taken_buffer, reading = [], unacked = [key0]\<rparr>"
    using step.take_read [of key0 "\<lparr>buf = taken_buffer, reading = [key0], unacked = []\<rparr>"
        Inr no_faults taken_buffer "''A''" "\<lambda>m. m"]
    by (simp add: read_taken)
  have "(step (\<lambda>m. m) Inr)\<^sup>*\<^sup>* \<lparr>buf = fresh_buffer, reading = [], unacked = []\<rparr>
          \<lparr>buf = taken_buffer, reading = [key0], unacked = []\<rparr>"
    using reach_pushed 2 by (rule rtranclp.rtrancl_into_rtrancl)
  then show ?thesis
    using 3 by (rule rtranclp.rtrancl_into_rtrancl)
qed

lemma NewBadger_open:
  "NewBadger env d s = Inr b \<Longrightarrow> db b = Some d \<and> seq b = Some s"
  by (auto simp: NewBadger_def Let_def split: option.splits)

text \<open>
  C1. A buffer opened without faults on a store that holds no message has an empty
  pending list. Pushing \<open>ms\<close> into it and then taking as many times, in any order with
  positive acks of the messages taken so far and with no negative ack, returns the
  messages in the order they were pushed, each with the key it was stored under. This is
  with no fault of the store, a codec that reads back what it wrote, and at most \<open>2 ^ 64\<close>
  messages, the range of the sequence. A key is 20 decimal digits, and the byte order of
  two keys is the order of their numbers. A push appends its key at the tail of the
  pending list, and a take removes the head.
\<close>

theorem FIFO_under_no_nack:
  "((\<forall>m \<in> set ms. FromBytes (Bytes m) = Inr m) \<and> NewBadger no_faults d s = Inr b \<and>
    messageKeys b = [] \<and> length ms \<le> 2 ^ 64 \<and> count_list ops Take = length ms \<longrightarrow>
      snd (snd (run_ops FromBytes no_faults ops (pushes Bytes no_faults ms b, [], []))) =
        map Returns (zip ms (issued (next_num s) (length ms)))) \<and>
   length (Sprintf_020d w) = 20 \<and>
   set (Sprintf_020d w) \<subseteq> set ''0123456789'' \<and>
   bytes_less (Sprintf_020d v) (Sprintf_020d w) = (v < w) \<and>
   (db b2 = Some d2 \<and> seq b2 = Some s2 \<longrightarrow>
      messageKeys (fst (PushMessage Bytes no_faults m b2)) =
        messageKeys b2 @ [Sprintf_020d (next_num s2)]) \<and>
   (db b2 = Some d2 \<and> messageKeys b2 = k # ks \<longrightarrow>
      NextMessage_lock b2 = (b2\<lparr>messageKeys := ks\<rparr>, Returns k))"
proof -
  have a: "(\<forall>m \<in> set ms. FromBytes (Bytes m) = Inr m) \<and> NewBadger no_faults d s = Inr b \<and>
    messageKeys b = [] \<and> length ms \<le> 2 ^ 64 \<and> count_list ops Take = length ms \<longrightarrow>
      snd (snd (run_ops FromBytes no_faults ops (pushes Bytes no_faults ms b, [], []))) =
        map Returns (zip ms (issued (next_num s) (length ms)))"
    using FIFO_run [of ms FromBytes Bytes b d s ops] NewBadger_open [of no_faults d s b]
    by blast
  have b: "length (Sprintf_020d w) = 20"
    by (simp add: Sprintf_fixed length_fixed_decimal)
  have c: "set (Sprintf_020d w) \<subseteq> set ''0123456789''"
    unfolding Sprintf_fixed by (rule set_fixed_decimal)
  have d: "db b2 = Some d2 \<and> seq b2 = Some s2 \<longrightarrow>
      messageKeys (fst (PushMessage Bytes no_faults m b2)) =
        messageKeys b2 @ [Sprintf_020d (next_num s2)]"
    by (simp add: PushMessage_no_faults)
  have e: "db b2 = Some d2 \<and> messageKeys b2 = k # ks \<longrightarrow>
      NextMessage_lock b2 = (b2\<lparr>messageKeys := ks\<rparr>, Returns k)"
    by (simp add: NextMessage_lock_def)
  show ?thesis using a b c d e Sprintf_less [of v w] by blast
qed

lemma fresh_buffer_keys: "messageKeys fresh_buffer = []"
  by (simp add: fresh_buffer_def)

theorem FIFO_under_no_nack_witness:
  "NewBadger no_faults \<lparr>items = []\<rparr> \<lparr>next_num = 0\<rparr> = Inr fresh_buffer \<and>
   snd (snd (run_ops Inr no_faults [Take, AckPositive 0, Take, Take]
               (pushes (\<lambda>m. m) no_faults [''A'', ''B'', ''C''] fresh_buffer, [], []))) =
     [Returns (''A'', ''00000000000000000000''), Returns (''B'', ''00000000000000000001''),
      Returns (''C'', ''00000000000000000002'')] \<and>
   bytes_less ''00000000000000000009'' ''00000000000000000010'' \<and>
   messageKeys (fst (PushMessage (\<lambda>m. m) no_faults ''B'' pushed_buffer)) =
     [''00000000000000000000'', ''00000000000000000001''] \<and>
   NextMessage_lock pushed_buffer = (taken_buffer, Returns ''00000000000000000000'')"
  using FIFO_under_no_nack [of "[''A'', ''B'', ''C'']" Inr "\<lambda>m. m" "\<lparr>items = []\<rparr>"
      "\<lparr>next_num = 0\<rparr>" fresh_buffer "[Take, AckPositive 0, Take, Take]" 10 9 pushed_buffer
      "\<lparr>items = [(key0, ''A'')]\<rparr>" "\<lparr>next_num = 1\<rparr>" "''B''" key0 "[]"] NewBadger_fresh
  by (simp add: fresh_buffer_keys Sprintf_small pushed_buffer_def taken_buffer_def key0_def)

section \<open>The pending count\<close>

lemma PushMessage_counts:
  "PushMessage Bytes env msg b = (b', r) \<Longrightarrow>
   pendingCtr b' - int (length (messageKeys b')) = pendingCtr b - int (length (messageKeys b))"
  by (auto simp: PushMessage_def Let_def split: option.splits sum.splits prod.splits)

lemma length_remove1_int:
  "k \<in> set xs \<Longrightarrow> int (length (remove1 k xs)) = int (length xs) - 1"
proof -
  assume "k \<in> set xs"
  then obtain n where n: "length xs = Suc n"
    by (cases xs) auto
  show ?thesis using \<open>k \<in> set xs\<close> by (simp add: length_remove1 n)
qed

lemma step_counted: "step Bytes FromBytes s s' \<Longrightarrow> counted s \<Longrightarrow> counted s'"
proof (induction rule: step.induct)
  case (push s env msg)
  obtain b' r where p: "PushMessage Bytes env msg (buf s) = (b', r)"
    by (cases "PushMessage Bytes env msg (buf s)")
  show ?case using push PushMessage_counts [OF p] by (simp add: counted_def p)
next
  case (take_lock s b' k)
  then show ?case
    by (auto simp: counted_def NextMessage_lock_def split: option.splits list.splits)
next
  case (take_read k s env b' msg)
  then show ?case
    by (auto simp: counted_def NextMessage_read_def length_remove1_int
        split: option.splits sum.splits)
next
  case (take_read_failed k s env b' err)
  then show ?case
    by (auto simp: counted_def NextMessage_read_def length_remove1_int
        split: option.splits sum.splits)
next
  case (ack k s env positive b' n err)
  then show ?case
    by (auto simp: counted_def AckFunc_def length_remove1_int
        split: option.splits sum.splits if_splits)
next
  case (close s env)
  then show ?case
    by (auto simp: counted_def Close_def cleanUpBadger_def Let_def split: option.splits)
next
  case (close_once_empty env s b' calls)
  then show ?case
    by (auto simp: counted_def CloseOnceEmpty_def cleanUpBadger_def Let_def
        split: option.splits if_splits)
qed

lemma steps_counted:
  "(step Bytes FromBytes)\<^sup>*\<^sup>* s s' \<Longrightarrow> counted s \<Longrightarrow> counted s'"
  by (induction rule: rtranclp_induct) (auto intro: step_counted)

lemma NewBadger_counted:
  "NewBadger env d sq = Inr b \<Longrightarrow> counted \<lparr>buf = b, reading = [], unacked = []\<rparr>"
  by (auto simp: NewBadger_def counted_def Let_def split: option.splits)

text \<open>
  C2, as the code has it. In every state that callers can reach from an opened buffer,
  the pending count is the length of the pending list plus the number of keys that
  calls have in hand: those a \<open>NextMessage\<close> has taken off the list and not yet read, and
  those held by an \<open>AckFunc\<close> that has neither put its key back nor deleted its record.
  With no key in hand the count is the length of the list.
\<close>

theorem pendingCtr_counts_keys_in_hand:
  "NewBadger env d sq = Inr b \<Longrightarrow>
   (step Bytes FromBytes)\<^sup>*\<^sup>* \<lparr>buf = b, reading = [], unacked = []\<rparr> s \<Longrightarrow>
   pendingCtr (buf s) =
     int (length (messageKeys (buf s))) + int (length (reading s)) + int (length (unacked s)) \<and>
   (reading s = [] \<and> unacked s = [] \<longrightarrow>
      pendingCtr (buf s) = int (length (messageKeys (buf s))))"
  using steps_counted [OF _ NewBadger_counted] by (fastforce simp: counted_def)

theorem pendingCtr_counts_keys_in_hand_witness:
  "NewBadger no_faults \<lparr>items = []\<rparr> \<lparr>next_num = 0\<rparr> = Inr fresh_buffer \<and>
   (step (\<lambda>m. m) Inr)\<^sup>*\<^sup>* \<lparr>buf = fresh_buffer, reading = [], unacked = []\<rparr>
     \<lparr>buf = taken_buffer, reading = [], unacked = [key0]\<rparr> \<and>
   pendingCtr taken_buffer = int (length (messageKeys taken_buffer)) + 0 + 1 \<and>
   (step (\<lambda>m. m) Inr)\<^sup>*\<^sup>* \<lparr>buf = fresh_buffer, reading = [], unacked = []\<rparr>
     \<lparr>buf = pushed_buffer, reading = [], unacked = []\<rparr> \<and>
   pendingCtr pushed_buffer = int (length (messageKeys pushed_buffer))"
  using pendingCtr_counts_keys_in_hand [OF NewBadger_fresh reach_taken]
    pendingCtr_counts_keys_in_hand [OF NewBadger_fresh reach_pushed]
    NewBadger_fresh reach_taken reach_pushed
  by simp

text \<open>
  The claim of C2 that count and length agree after a take that is not yet acked fails:
  after one push and one take on a fresh buffer the list is empty and the count is 1.
\<close>

theorem pendingCtr_after_take_counterexample:
  "NewBadger no_faults \<lparr>items = []\<rparr> \<lparr>next_num = 0\<rparr> = Inr fresh_buffer \<and>
   PushMessage (\<lambda>m. m) no_faults ''A'' fresh_buffer = (pushed_buffer, Inr 0) \<and>
   NextMessage Inr no_faults pushed_buffer = (taken_buffer, Returns (''A'', key0)) \<and>
   (step (\<lambda>m. m) Inr)\<^sup>*\<^sup>* \<lparr>buf = fresh_buffer, reading = [], unacked = []\<rparr>
     \<lparr>buf = taken_buffer, reading = [], unacked = [key0]\<rparr> \<and>
   pendingCtr taken_buffer = 1 \<and> length (messageKeys taken_buffer) = 0 \<and>
   pendingCtr taken_buffer \<noteq> int (length (messageKeys taken_buffer))"
  using NewBadger_fresh push_fresh take_pushed reach_taken by (simp add: taken_buffer_def)

section \<open>Acks and close\<close>

text \<open>
  C8, as the code has it. On an open buffer a negative ack returns no error, whatever
  the store would answer: it puts the key back at the head of the pending list and
  changes nothing else. On a closed buffer every ack, the negative one too, changes
  nothing and returns the closed-status error.
\<close>

theorem negative_ack_open_or_closed:
  "(db b \<noteq> None \<longrightarrow>
      AckFunc env k False b = (b\<lparr>messageKeys := k # messageKeys b\<rparr>, snd (sizes env), None)) \<and>
   (db b = None \<longrightarrow> AckFunc env k positive b = (b, 0, Some ErrTypeClosed))"
  by (auto simp: AckFunc_def)

theorem negative_ack_open_or_closed_witness:
  "db taken_buffer \<noteq> None \<and>
   AckFunc (no_faults\<lparr>update_err := Some (External ''disk full'')\<rparr>) key0 False taken_buffer =
     (pushed_buffer, 0, None) \<and>
   db closed_buffer = None \<and>
   AckFunc no_faults key0 True closed_buffer = (closed_buffer, 0, Some ErrTypeClosed)"
  using negative_ack_open_or_closed [of taken_buffer
      "no_faults\<lparr>update_err := Some (External ''disk full'')\<rparr>" key0 True]
    negative_ack_open_or_closed [of closed_buffer no_faults key0 True]
  by (simp add: taken_buffer_def pushed_buffer_def closed_buffer_def no_faults_def)

text \<open>
  The claim of C8 that a negative ack succeeds in every state fails on a closed buffer:
  push, take, close, and the negative ack of the handle returns \<open>ErrTypeClosed\<close>.
\<close>

theorem negative_ack_closed_counterexample:
  "NextMessage Inr no_faults pushed_buffer = (taken_buffer, Returns (''A'', key0)) \<and>
   Close no_faults taken_buffer = (closed_buffer, [DbClose]) \<and>
   AckFunc no_faults key0 False closed_buffer = (closed_buffer, 0, Some ErrTypeClosed)"
  using take_pushed close_taken by (simp add: AckFunc_def closed_buffer_def)

text \<open>
  C9 on the code. \<open>cleanUpBadger\<close> drops the sequence and closes the store: on a buffer
  whose sequence was used, \<open>Close\<close> calls the store's close and nothing else, and so does
  \<open>CloseOnceEmpty\<close>; no run of \<open>cleanUpBadger\<close> releases the sequence.
\<close>

theorem Close_does_not_release:
  "seq pushed_buffer = Some \<lparr>next_num = 1\<rparr> \<and>
   Close no_faults pushed_buffer =
     (\<lparr>messageKeys = [key0], pendingCtr = 1, db = None, seq = None\<rparr>, [DbClose]) \<and>
   CloseOnceEmpty no_faults fresh_buffer =
     (\<lparr>messageKeys = [], pendingCtr = 0, db = None, seq = None\<rparr>, Returns [DbClose]) \<and>
   SeqRelease \<notin> set (fst (snd (cleanUpBadger env b)))"
  by (auto simp: Close_def CloseOnceEmpty_def cleanUpBadger_def pushed_buffer_def
      fresh_buffer_def Let_def split: option.splits)

end
